theory Spec2Isabelle
  imports Complex_Main "HOL-Library.Sublist"
begin

section \<open>Data model\<close>

text \<open>
  The program is a short pandas script: \<^verbatim>\<open>preprocess_data(df)\<close> cleans one
  DataFrame in nine commented steps, \<^verbatim>\<open>download_from_gcs\<close> decodes a blob with
  \<^verbatim>\<open>pd.read_csv\<close>.  A DataFrame is modelled as its list of column names and its
  rows; a cell is missing (NaN, NaT), a number, a text token or a timestamp.

  Numbers are exact reals: rounding, infinities and the widths of machine
  floats are outside this model.  A statistic that pandas returns as NaN
  (the median or a quantile of no values) is \<open>None\<close>.  Column names are
  unique and every row has one cell per column, as in every DataFrame;
  \<open>wf_table\<close> states it.  Columns of dtype bool and columns of dtype
  datetime64 other than \<^verbatim>\<open>Date\<close> are outside the model too (\<^verbatim>\<open>read_csv\<close>
  as it is called here does not produce the latter).
\<close>

type_synonym date = "nat \<times> nat \<times> nat"

datatype cell = Missing | Num real | Str string | Stamp date

record table =
  columns :: "string list"
  rows :: "cell list list"

datatype error = KeyError | ValueError | ParserError | EmptyDataError

definition wf_table :: "table \<Rightarrow> bool" where
  "wf_table df \<longleftrightarrow>
     distinct (columns df) \<and> (\<forall>r \<in> set (rows df). length r = length (columns df))"

subsection \<open>Column access\<close>

fun col_pos :: "string list \<Rightarrow> string \<Rightarrow> nat" where
  "col_pos [] c = 0"
| "col_pos (x # xs) c = (if x = c then 0 else Suc (col_pos xs c))"

text \<open>\<^verbatim>\<open>df[col]\<close> read, and \<^verbatim>\<open>df[col] = series\<close> for a column that exists.\<close>

definition column :: "table \<Rightarrow> string \<Rightarrow> cell list" where
  "column df c = map (\<lambda>r. r ! col_pos (columns df) c) (rows df)"

definition set_column :: "table \<Rightarrow> string \<Rightarrow> cell list \<Rightarrow> table" where
  "set_column df c vs =
     df\<lparr>rows := map (\<lambda>(r, v). r[col_pos (columns df) c := v]) (zip (rows df) vs)\<rparr>"

section \<open>The stages of \<^verbatim>\<open>preprocess_data\<close>\<close>

subsection \<open>Step 1: \<^verbatim>\<open>df.replace('?', np.nan, inplace=True)\<close>\<close>

definition replace_cell :: "cell \<Rightarrow> cell" where
  "replace_cell v = (if v = Str ''?'' then Missing else v)"

definition replace_marker :: "table \<Rightarrow> table" where
  "replace_marker df = df\<lparr>rows := map (map replace_cell) (rows df)\<rparr>"

subsection \<open>Step 2: \<^verbatim>\<open>pd.to_numeric(df[col], errors='coerce')\<close> for every column but Date\<close>

text \<open>
  The grammar of numeric literals belongs to pandas; it is the parameter
  \<open>p\<close>, which gives the number a token denotes or \<open>None\<close>.  With
  \<^verbatim>\<open>errors='coerce'\<close> a token without a value becomes NaN, and so does any
  object that is neither text nor a number.
\<close>

fun to_numeric :: "(string \<Rightarrow> real option) \<Rightarrow> cell \<Rightarrow> cell" where
  "to_numeric p Missing = Missing"
| "to_numeric p (Num x) = Num x"
| "to_numeric p (Str s) = (case p s of None \<Rightarrow> Missing | Some x \<Rightarrow> Num x)"
| "to_numeric p (Stamp d) = Missing"

definition convert_columns :: "(string \<Rightarrow> real option) \<Rightarrow> table \<Rightarrow> table" where
  "convert_columns p df =
     fold (\<lambda>col d. if col \<noteq> ''Date''
                    then set_column d col (map (to_numeric p) (column d col))
                    else d)
          (columns df) df"

subsection \<open>Step 3: \<^verbatim>\<open>pd.to_datetime(df['Date'], format='%m/%d/%Y', errors='coerce')\<close>\<close>

definition digit_of :: "char \<Rightarrow> nat option" where
  "digit_of c = map_of (zip ''0123456789'' [0, 1, 2, 3, 4, 5, 6, 7, 8, 9]) c"

fun digits_val :: "string \<Rightarrow> nat \<Rightarrow> nat option" where
  "digits_val [] acc = Some acc"
| "digits_val (c # cs) acc =
     (case digit_of c of None \<Rightarrow> None | Some d \<Rightarrow> digits_val cs (10 * acc + d))"

definition nat_of_digits :: "string \<Rightarrow> nat option" where
  "nat_of_digits s = (if s = [] then None else digits_val s 0)"

fun split_on :: "char \<Rightarrow> string \<Rightarrow> string list" where
  "split_on sep [] = [[]]"
| "split_on sep (c # cs) =
     (if c = sep then [] # split_on sep cs
      else (case split_on sep cs of [] \<Rightarrow> [[c]] | w # ws \<Rightarrow> (c # w) # ws))"

definition leap_year :: "nat \<Rightarrow> bool" where
  "leap_year y \<longleftrightarrow> y mod 4 = 0 \<and> (y mod 100 \<noteq> 0 \<or> y mod 400 = 0)"

definition days_in_month :: "nat \<Rightarrow> nat \<Rightarrow> nat" where
  "days_in_month y m =
     (if m = 2 then (if leap_year y then 29 else 28)
      else if m = 4 \<or> m = 6 \<or> m = 9 \<or> m = 11 then 30 else 31)"

text \<open>
  The directives of the format: \<^verbatim>\<open>%m\<close> is one or two digits with value 1 to
  12, \<^verbatim>\<open>%d\<close> one or two digits (or a blank and a digit) with value 1 to 31,
  \<^verbatim>\<open>%Y\<close> exactly four digits; the whole token must match and the day must
  exist in the month.  The range limit of nanosecond timestamps is not
  modelled.
\<close>

definition month_field :: "string \<Rightarrow> nat option" where
  "month_field s =
     (if length s = 1 \<or> length s = 2 then
        (case nat_of_digits s of
           Some m \<Rightarrow> if 1 \<le> m \<and> m \<le> 12 then Some m else None
         | None \<Rightarrow> None)
      else None)"

definition day_field :: "string \<Rightarrow> nat option" where
  "day_field s =
     (let s' = (case s of [b, c] \<Rightarrow> if b = CHR '' '' \<and> c \<noteq> CHR ''0'' then [c] else s
                | _ \<Rightarrow> s)
      in if length s' = 1 \<or> length s' = 2 then
           (case nat_of_digits s' of
              Some d \<Rightarrow> if 1 \<le> d \<and> d \<le> 31 then Some d else None
            | None \<Rightarrow> None)
         else None)"

definition year_field :: "string \<Rightarrow> nat option" where
  "year_field s = (if length s = 4 then nat_of_digits s else None)"

definition strptime :: "string \<Rightarrow> date option" where
  "strptime s =
     (case split_on (CHR ''/'') s of
        [ms, ds, ys] \<Rightarrow>
          (case (month_field ms, day_field ds, year_field ys) of
             (Some m, Some d, Some y) \<Rightarrow>
               if 1 \<le> y \<and> d \<le> days_in_month y m then Some (y, m, d) else None
           | _ \<Rightarrow> None)
      | _ \<Rightarrow> None)"

text \<open>
  A value that is already a timestamp is kept; a number is rendered as
  text, which never matches the format; NaN stays missing.
\<close>

fun to_datetime :: "cell \<Rightarrow> cell" where
  "to_datetime Missing = Missing"
| "to_datetime (Num x) = Missing"
| "to_datetime (Str s) = (case strptime s of None \<Rightarrow> Missing | Some d \<Rightarrow> Stamp d)"
| "to_datetime (Stamp d) = Stamp d"

text \<open>\<^verbatim>\<open>df['Date']\<close> raises KeyError when the frame has no such column.\<close>

definition convert_date :: "table \<Rightarrow> error + table" where
  "convert_date df =
     (if ''Date'' \<in> set (columns df)
      then Inr (set_column df ''Date'' (map to_datetime (column df ''Date'')))
      else Inl KeyError)"

subsection \<open>Step 4: \<^verbatim>\<open>df.dropna(thresh=len(df.columns) * 0.5)\<close> and the median fill\<close>

definition notna :: "cell \<Rightarrow> bool" where
  "notna v \<longleftrightarrow> v \<noteq> Missing"

text \<open>A row stays when its count of non-missing cells is at least \<open>thresh\<close>.\<close>

definition dropna :: "real \<Rightarrow> table \<Rightarrow> table" where
  "dropna thresh df =
     df\<lparr>rows := filter (\<lambda>r. thresh \<le> real (length (filter notna r))) (rows df)\<rparr>"

definition drop_sparse :: "table \<Rightarrow> table" where
  "drop_sparse df = dropna (real (length (columns df)) * 0.5) df"

text \<open>
  \<^verbatim>\<open>df.select_dtypes(include=np.number).columns\<close>: after steps 2 and 3 every
  column but Date has a numeric dtype (\<^verbatim>\<open>to_numeric\<close> returns one even for
  an empty or all-NaN column) and Date has dtype datetime64.
\<close>

definition numerical_cols :: "table \<Rightarrow> string list" where
  "numerical_cols df = filter (\<lambda>c. c \<noteq> ''Date'') (columns df)"

fun present :: "cell list \<Rightarrow> real list" where
  "present [] = []"
| "present (Num x # vs) = x # present vs"
| "present (v # vs) = present vs"

definition median :: "cell list \<Rightarrow> real option" where
  "median vs =
     (let xs = sort (present vs); n = length xs
      in if n = 0 then None
         else if odd n then Some (xs ! (n div 2))
         else Some ((xs ! (n div 2 - 1) + xs ! (n div 2)) / 2))"

definition fill_cell :: "real option \<Rightarrow> cell \<Rightarrow> cell" where
  "fill_cell m v = (case m of None \<Rightarrow> v | Some x \<Rightarrow> if v = Missing then Num x else v)"

definition fillna :: "real option \<Rightarrow> cell list \<Rightarrow> cell list" where
  "fillna m vs = map (fill_cell m) vs"

definition fill_median :: "string list \<Rightarrow> table \<Rightarrow> table" where
  "fill_median cols df =
     fold (\<lambda>col d. set_column d col (fillna (median (column d col)) (column d col))) cols df"

subsection \<open>Step 5: outliers by the IQR method\<close>

text \<open>
  \<^verbatim>\<open>Series.quantile(q)\<close> with linear interpolation over the values that are
  present; NaN when there is none.  Arithmetic and comparisons with NaN: the
  result of an operation is NaN, a comparison is false.
\<close>

definition quantile :: "cell list \<Rightarrow> real \<Rightarrow> real option" where
  "quantile vs q =
     (let xs = sort (present vs); n = length xs
      in if n = 0 then None
         else let h = real (n - 1) * q; i = nat \<lfloor>h\<rfloor>; g = h - real i
              in Some (if i + 1 < n then xs ! i + g * (xs ! (i + 1) - xs ! i) else xs ! i))"

definition nan_minus :: "real option \<Rightarrow> real option \<Rightarrow> real option" where
  "nan_minus a b = (case (a, b) of (Some x, Some y) \<Rightarrow> Some (x - y) | _ \<Rightarrow> None)"

definition nan_plus :: "real option \<Rightarrow> real option \<Rightarrow> real option" where
  "nan_plus a b = (case (a, b) of (Some x, Some y) \<Rightarrow> Some (x + y) | _ \<Rightarrow> None)"

definition nan_scale :: "real \<Rightarrow> real option \<Rightarrow> real option" where
  "nan_scale k a = map_option (\<lambda>x. k * x) a"

definition cell_ge :: "cell \<Rightarrow> real option \<Rightarrow> bool" where
  "cell_ge v b = (case (v, b) of (Num x, Some y) \<Rightarrow> y \<le> x | _ \<Rightarrow> False)"

definition cell_le :: "cell \<Rightarrow> real option \<Rightarrow> bool" where
  "cell_le v b = (case (v, b) of (Num x, Some y) \<Rightarrow> x \<le> y | _ \<Rightarrow> False)"

definition lower_bound :: "cell list \<Rightarrow> real option" where
  "lower_bound vs =
     (let Q1 = quantile vs 0.25; Q3 = quantile vs 0.75; IQR = nan_minus Q3 Q1
      in nan_minus Q1 (nan_scale 1.5 IQR))"

definition upper_bound :: "cell list \<Rightarrow> real option" where
  "upper_bound vs =
     (let Q1 = quantile vs 0.25; Q3 = quantile vs 0.75; IQR = nan_minus Q3 Q1
      in nan_plus Q3 (nan_scale 1.5 IQR))"

definition in_bounds :: "cell list \<Rightarrow> cell \<Rightarrow> bool" where
  "in_bounds vs v \<longleftrightarrow> cell_ge v (lower_bound vs) \<and> cell_le v (upper_bound vs)"

text \<open>One pass of the loop body: \<^verbatim>\<open>df = df[(df[col] >= lower) & (df[col] <= upper)]\<close>.\<close>

definition trim_column :: "string \<Rightarrow> table \<Rightarrow> table" where
  "trim_column col df =
     df\<lparr>rows := filter (\<lambda>r. in_bounds (column df col) (r ! col_pos (columns df) col))
                      (rows df)\<rparr>"

definition remove_outliers :: "string list \<Rightarrow> table \<Rightarrow> table" where
  "remove_outliers cols df = fold trim_column cols df"

subsection \<open>Step 6: \<^verbatim>\<open>StandardScaler().fit_transform(df[numerical_cols])\<close>\<close>

text \<open>
  The scaler refuses an array with no row or no column (ValueError).  It
  fits the mean and the population variance of each column over the values
  present, takes 1 as the scale of a constant column, and maps \<open>v\<close> to
  \<open>(v - mean) / scale\<close>; NaN stays NaN.  In exact arithmetic a column is
  constant when its variance is 0.
\<close>

definition mean :: "real list \<Rightarrow> real" where
  "mean xs = sum_list xs / real (length xs)"

definition variance :: "real list \<Rightarrow> real" where
  "variance xs = sum_list (map (\<lambda>x. (x - mean xs)\<^sup>2) xs) / real (length xs)"

definition scale_of :: "real list \<Rightarrow> real" where
  "scale_of xs = (if variance xs = 0 then 1 else sqrt (variance xs))"

definition scale_cell :: "real list \<Rightarrow> cell \<Rightarrow> cell" where
  "scale_cell xs v = (case v of Num x \<Rightarrow> Num ((x - mean xs) / scale_of xs) | _ \<Rightarrow> v)"

definition standardize :: "cell list \<Rightarrow> cell list" where
  "standardize vs = map (scale_cell (present vs)) vs"

definition fit_transform :: "string list \<Rightarrow> table \<Rightarrow> error + table" where
  "fit_transform cols df =
     (if rows df = [] \<or> cols = [] then Inl ValueError
      else Inr (fold (\<lambda>col d. set_column d col (standardize (column df col))) cols df))"

subsection \<open>Step 7: \<^verbatim>\<open>df.drop_duplicates(inplace=True)\<close>\<close>

fun keep_first :: "'a list \<Rightarrow> 'a list \<Rightarrow> 'a list" where
  "keep_first seen [] = []"
| "keep_first seen (r # rs) =
     (if r \<in> set seen then keep_first seen rs else r # keep_first (r # seen) rs)"

definition drop_duplicates :: "table \<Rightarrow> table" where
  "drop_duplicates df = df\<lparr>rows := keep_first [] (rows df)\<rparr>"

subsection \<open>The pipeline\<close>

text \<open>
  \<^verbatim>\<open>df.describe(include='all')\<close>, printed before step 1, raises ValueError
  for a frame without columns; the other prints have no effect on the frame.
\<close>

definition parsed :: "(string \<Rightarrow> real option) \<Rightarrow> table \<Rightarrow> error + table" where
  "parsed p df =
     (if columns df = [] then Inl ValueError
      else convert_date (convert_columns p (replace_marker df)))"

definition preprocess_data :: "(string \<Rightarrow> real option) \<Rightarrow> table \<Rightarrow> error + table" where
  "preprocess_data p df =
     (case parsed p df of
        Inl e \<Rightarrow> Inl e
      | Inr df3 \<Rightarrow>
          (let df4 = drop_sparse df3;
               cols = numerical_cols df4;
               df5 = fill_median cols df4;
               df6 = remove_outliers cols df5
           in case fit_transform cols df6 of
                Inl e \<Rightarrow> Inl e
              | Inr df7 \<Rightarrow> Inr (drop_duplicates df7)))"

subsection \<open>A literal grammar for the examples\<close>

text \<open>
  Plain decimal literals, an optional minus sign and an optional fraction:
  the tokens of the examples below, read as \<^verbatim>\<open>to_numeric\<close> reads them.
\<close>

definition unsigned_decimal :: "string \<Rightarrow> real option" where
  "unsigned_decimal s =
     (let ip = takeWhile (\<lambda>c. c \<noteq> CHR ''.'') s; rest = dropWhile (\<lambda>c. c \<noteq> CHR ''.'') s
      in case rest of
           [] \<Rightarrow> map_option real (nat_of_digits ip)
         | _ # fp \<Rightarrow>
             (case (nat_of_digits ip, nat_of_digits fp) of
                (Some a, Some b) \<Rightarrow> Some (real a + real b / 10 ^ length fp)
              | _ \<Rightarrow> None))"

definition decimal :: "string \<Rightarrow> real option" where
  "decimal s =
     (case s of
        [] \<Rightarrow> None
      | c # cs \<Rightarrow> if c = CHR ''-'' then map_option uminus (unsigned_decimal cs)
                 else unsigned_decimal s)"

section \<open>Auxiliary notions and example frames\<close>

text \<open>
  The effect of a loop over columns on one row: the cell of every column in
  \<open>cs\<close> is rewritten by that column's function, the other cells stay.
\<close>

definition on_columns :: "string list \<Rightarrow> string list \<Rightarrow> (string \<Rightarrow> cell \<Rightarrow> cell) \<Rightarrow> cell list \<Rightarrow> cell list" where
  "on_columns names cs G r = map (\<lambda>(c, v). if c \<in> set cs then G c v else v) (zip names r)"

text \<open>A frame of four columns with a row that misses exactly half of its cells.\<close>

definition half_missing :: table where
  "half_missing = \<lparr>columns = [''Date'', ''X'', ''Y'', ''Z''],
     rows = [[Missing, Num 1, Missing, Num 2], [Missing, Missing, Missing, Num 3],
             [Stamp (2020, 1, 1), Num 1, Num 4, Num 2]]\<rparr>"

text \<open>
  A raw frame that exercises every step (a duplicate row, an invalid date, a
  text token in a numeric column, a missing value to fill, an outlier) and the
  frame the pipeline returns for it; the column of the literal scenario; a
  frame on which trimming column by column differs from trimming against the
  bounds of the untrimmed frame.
\<close>

definition raw_frame :: table where
  "raw_frame = \<lparr>columns = [''Date'', ''X'', ''Y''],
     rows = [[Str ''1/1/2020'', Str ''1'', Str ''5''],
             [Str ''1/1/2020'', Str ''1'', Str ''5''],
             [Str ''1/2/2020'', Str ''3'', Str ''5''],
             [Str ''13/2/2020'', Str ''?'', Str ''abc''],
             [Str ''1/3/2020'', Str ''3'', Str ''?''],
             [Str ''1/4/2020'', Str ''2'', Str ''100'']]\<rparr>"

definition clean_frame :: table where
  "clean_frame = \<lparr>columns = [''Date'', ''X'', ''Y''],
     rows = [[Stamp (2020, 1, 1), Num (- 1), Num 0],
             [Stamp (2020, 1, 2), Num 1, Num 0],
             [Stamp (2020, 1, 3), Num 1, Num 0]]\<rparr>"

definition five_frame :: table where
  "five_frame = \<lparr>columns = [''X''], rows = [[Num 1], [Num 2], [Num 3], [Num 4], [Num 100]]\<rparr>"

definition pair_frame :: table where
  "pair_frame = \<lparr>columns = [''X'', ''Y''],
     rows = [[Num 1, Num 1], [Num 2, Num 2], [Num 3, Num 3], [Num 4, Num 4],
             [Num 100, Num 20], [Num 5, Num 9]]\<rparr>"


text \<open>
  Steps 1 to 3 on one cell of the column named \<open>c\<close>, and the shapes of the
  cells they leave: a numeric column holds numbers and NaN, the Date column
  timestamps and NaT.
\<close>

definition parse_cell :: "(string \<Rightarrow> real option) \<Rightarrow> string \<Rightarrow> cell \<Rightarrow> cell" where
  "parse_cell p c v =
     (if c = ''Date'' then to_datetime (replace_cell v) else to_numeric p (replace_cell v))"

fun is_number :: "cell \<Rightarrow> bool" where
  "is_number (Num x) = True"
| "is_number v = False"

fun is_date_or_nat :: "cell \<Rightarrow> bool" where
  "is_date_or_nat Missing = True"
| "is_date_or_nat (Stamp d) = True"
| "is_date_or_nat v = False"


text \<open>A frame whose column X has no value at all, and what steps 1 to 3 make of it.\<close>

definition gap_frame :: table where
  "gap_frame = \<lparr>columns = [''Date'', ''X'', ''Y''],
     rows = [[Str ''1/1/2020'', Str ''?'', Str ''5''],
             [Str ''1/2/2020'', Str ''?'', Str ''7'']]\<rparr>"

definition gap_parsed :: table where
  "gap_parsed = \<lparr>columns = [''Date'', ''X'', ''Y''],
     rows = [[Stamp (2020, 1, 1), Missing, Num 5],
             [Stamp (2020, 1, 2), Missing, Num 7]]\<rparr>"

text \<open>The example frame after steps 1 to 3.\<close>

definition raw_parsed :: table where
  "raw_parsed = \<lparr>columns = [''Date'', ''X'', ''Y''],
     rows = [[Stamp (2020, 1, 1), Num 1, Num 5],
             [Stamp (2020, 1, 1), Num 1, Num 5],
             [Stamp (2020, 1, 2), Num 3, Num 5],
             [Missing, Missing, Missing],
             [Stamp (2020, 1, 3), Num 3, Missing],
             [Stamp (2020, 1, 4), Num 2, Num 100]]\<rparr>"


section \<open>Decoding: \<^verbatim>\<open>pd.read_csv(io.BytesIO(data))\<close>\<close>









section \<open>Columns and loops over columns\<close>

lemma col_pos_less: "c \<in> set cs \<Longrightarrow> col_pos cs c < length cs"
  by (induction cs) auto

lemma nth_col_pos: "c \<in> set cs \<Longrightarrow> cs ! col_pos cs c = c"
  by (induction cs) auto

lemma col_pos_nth: "distinct cs \<Longrightarrow> i < length cs \<Longrightarrow> col_pos cs (cs ! i) = i"
  by (induction cs arbitrary: i) (auto simp: nth_Cons split: nat.splits)

lemma map_zip_same: "map (\<lambda>(r, v). h r v) (zip rs (map g rs)) = map (\<lambda>r. h r (g r)) rs"
  by (induction rs) auto

lemma set_column_map:
  "set_column df c (map f (column df c)) =
     df\<lparr>rows := map (\<lambda>r. r[col_pos (columns df) c := f (r ! col_pos (columns df) c)]) (rows df)\<rparr>"
  unfolding set_column_def column_def map_map o_def
  by (simp add: map_zip_same[where h="\<lambda>r v. r[col_pos (columns df) c := v]" and g="\<lambda>r. f (r ! col_pos (columns df) c)"])

lemma length_on_columns: "length r = length names \<Longrightarrow> length (on_columns names cs G r) = length names"
  by (simp add: on_columns_def)

lemma nth_on_columns:
  "length r = length names \<Longrightarrow> i < length names \<Longrightarrow>
   on_columns names cs G r ! i = (if names ! i \<in> set cs then G (names ! i) (r ! i) else r ! i)"
  by (simp add: on_columns_def)

lemma on_columns_Nil: "length r = length names \<Longrightarrow> on_columns names [] G r = r"
  by (rule nth_equalityI) (simp_all add: on_columns_def)

lemma on_columns_snoc:
  assumes "distinct names" "length r = length names" "c \<in> set names"
  shows "(on_columns names cs G r)[col_pos names c := G c (r ! col_pos names c)] =
         on_columns names (cs @ [c]) G r"
proof (rule nth_equalityI)
  show "length ((on_columns names cs G r)[col_pos names c := G c (r ! col_pos names c)]) =
        length (on_columns names (cs @ [c]) G r)"
    using assms by (simp add: length_on_columns)
next
  fix i
  assume "i < length ((on_columns names cs G r)[col_pos names c := G c (r ! col_pos names c)])"
  then have i: "i < length names"
    using assms by (simp add: length_on_columns)
  have p: "col_pos names c < length names"
    using assms(3) by (rule col_pos_less)
  have nm: "names ! col_pos names c = c"
    using assms(3) by (rule nth_col_pos)
  have len: "length (on_columns names cs G r) = length names"
    using assms(2) by (rule length_on_columns)
  show "(on_columns names cs G r)[col_pos names c := G c (r ! col_pos names c)] ! i =
        on_columns names (cs @ [c]) G r ! i"
  proof (cases "i = col_pos names c")
    case True
    have a: "(on_columns names cs G r)[col_pos names c := G c (r ! col_pos names c)] ! col_pos names c =
          G c (r ! col_pos names c)"
      using p len by (simp only: nth_list_update_eq)
    have b: "on_columns names (cs @ [c]) G r ! col_pos names c = G c (r ! col_pos names c)"
      using p assms(2) nm by (simp add: nth_on_columns)
    show ?thesis
      unfolding True using a b by (rule trans[OF _ sym])
  next
    case False
    have ne: "names ! i \<noteq> c"
    proof
      assume "names ! i = c"
      then have "col_pos names (names ! i) = col_pos names c" by (rule arg_cong)
      then show False using False col_pos_nth[OF assms(1) i] by (simp only:)
    qed
    have "(on_columns names cs G r)[col_pos names c := G c (r ! col_pos names c)] ! i =
          on_columns names cs G r ! i"
      using False by (simp only: nth_list_update_neq not_sym)
    also have "\<dots> = (if names ! i \<in> set cs then G (names ! i) (r ! i) else r ! i)"
      using assms(2) i by (rule nth_on_columns)
    also have "\<dots> = (if names ! i \<in> set (cs @ [c]) then G (names ! i) (r ! i) else r ! i)"
      using ne by simp
    also have "\<dots> = on_columns names (cs @ [c]) G r ! i"
      using assms(2) i by (rule nth_on_columns[symmetric])
    finally show ?thesis .
  qed
qed

lemma fold_columns:
  assumes wf: "wf_table df"
    and cs: "distinct cs" "set cs \<subseteq> set (columns df)"
    and step: "\<And>c d. c \<in> set cs \<Longrightarrow> columns d = columns df \<Longrightarrow> column d c = column df c \<Longrightarrow>
         step c d = d\<lparr>rows := map (\<lambda>r. r[col_pos (columns df) c := G c (r ! col_pos (columns df) c)]) (rows d)\<rparr>"
  shows "fold step cs df = df\<lparr>rows := map (on_columns (columns df) cs G) (rows df)\<rparr>"
  using cs step
proof (induction cs rule: rev_induct)
  case Nil
  have "map (on_columns (columns df) [] G) (rows df) = rows df"
    using wf by (intro map_idI on_columns_Nil) (simp add: wf_table_def)
  then show ?case by simp
next
  case (snoc c cs)
  let ?names = "columns df"
  let ?d = "df\<lparr>rows := map (on_columns ?names cs G) (rows df)\<rparr>"
  have c: "c \<in> set ?names" "c \<notin> set cs" "distinct cs" "set cs \<subseteq> set ?names"
    using snoc.prems(1,2) by auto
  have IH: "fold step cs df = ?d"
    using c snoc.prems(3) by (intro snoc.IH) auto
  have len: "\<And>r. r \<in> set (rows df) \<Longrightarrow> length r = length ?names"
    using wf by (simp add: wf_table_def)
  have pos: "col_pos ?names c < length ?names"
    using c(1) by (rule col_pos_less)
  have same: "\<And>r. r \<in> set (rows df) \<Longrightarrow> on_columns ?names cs G r ! col_pos ?names c = r ! col_pos ?names c"
    using len pos c by (simp add: nth_on_columns nth_col_pos)
  have col: "column ?d c = column df c"
    using same by (simp add: column_def)
  have "step c ?d = ?d\<lparr>rows := map (\<lambda>r. r[col_pos ?names c := G c (r ! col_pos ?names c)]) (rows ?d)\<rparr>"
    using col by (intro snoc.prems(3)) simp_all
  also have "\<dots> = df\<lparr>rows := map (\<lambda>r. (on_columns ?names cs G r)[col_pos ?names c := G c (r ! col_pos ?names c)]) (rows df)\<rparr>"
    using same by (simp add: o_def cong: map_cong)
  also have "\<dots> = df\<lparr>rows := map (on_columns ?names (cs @ [c]) G) (rows df)\<rparr>"
    using wf c(1) len by (simp add: on_columns_snoc wf_table_def cong: map_cong)
  finally show ?case
    using IH by simp
qed

lemma numerical_cols_ok:
  "wf_table df \<Longrightarrow> distinct (numerical_cols df) \<and> set (numerical_cols df) \<subseteq> set (columns df)"
  by (auto simp: numerical_cols_def wf_table_def)

lemma convert_columns_rows:
  assumes "wf_table df"
  shows "convert_columns p df =
         df\<lparr>rows := map (on_columns (columns df) (columns df)
                            (\<lambda>c. if c \<noteq> ''Date'' then to_numeric p else (\<lambda>v. v))) (rows df)\<rparr>"
  unfolding convert_columns_def
proof (rule fold_columns[OF assms])
  show "distinct (columns df)" using assms by (simp add: wf_table_def)
  show "set (columns df) \<subseteq> set (columns df)" by simp
  fix c d
  assume "c \<in> set (columns df)" "columns d = columns df" "column d c = column df c"
  then show "(if c \<noteq> ''Date'' then set_column d c (map (to_numeric p) (column d c)) else d) =
       d\<lparr>rows := map (\<lambda>r. r[col_pos (columns df) c :=
             (if c \<noteq> ''Date'' then to_numeric p else (\<lambda>v. v)) (r ! col_pos (columns df) c)]) (rows d)\<rparr>"
    using set_column_map[of d c "to_numeric p"] by simp
qed

lemma fill_median_rows:
  assumes "wf_table df" "distinct cs" "set cs \<subseteq> set (columns df)"
  shows "fill_median cs df =
         df\<lparr>rows := map (on_columns (columns df) cs (\<lambda>c. fill_cell (median (column df c)))) (rows df)\<rparr>"
  unfolding fill_median_def
proof (rule fold_columns[OF assms])
  fix c d
  assume "c \<in> set cs" "columns d = columns df" "column d c = column df c"
  then show "set_column d c (fillna (median (column d c)) (column d c)) =
       d\<lparr>rows := map (\<lambda>r. r[col_pos (columns df) c :=
             fill_cell (median (column df c)) (r ! col_pos (columns df) c)]) (rows d)\<rparr>"
    using set_column_map[of d c "fill_cell (median (column df c))"] by (simp add: fillna_def)
qed

lemma fit_transform_rows:
  assumes "wf_table df" "distinct cs" "set cs \<subseteq> set (columns df)" "rows df \<noteq> []" "cs \<noteq> []"
  shows "fit_transform cs df =
         Inr (df\<lparr>rows := map (on_columns (columns df) cs (\<lambda>c. scale_cell (present (column df c)))) (rows df)\<rparr>)"
proof -
  have "fold (\<lambda>col d. set_column d col (standardize (column df col))) cs df =
        df\<lparr>rows := map (on_columns (columns df) cs (\<lambda>c. scale_cell (present (column df c)))) (rows df)\<rparr>"
  proof (rule fold_columns[OF assms(1-3)])
    fix c d
    assume "c \<in> set cs" "columns d = columns df" "column d c = column df c"
    then show "set_column d c (standardize (column df c)) =
         d\<lparr>rows := map (\<lambda>r. r[col_pos (columns df) c :=
               scale_cell (present (column df c)) (r ! col_pos (columns df) c)]) (rows d)\<rparr>"
      using set_column_map[of d c "scale_cell (present (column df c))"] by (simp add: standardize_def)
  qed
  then show ?thesis
    using assms(4,5) by (simp add: fit_transform_def)
qed

section \<open>Sparse rows\<close>

lemma missing_present:
  "length (filter notna r) + length (filter (\<lambda>v. v = Missing) r) = length r"
  using sum_length_filter_compl[of notna r] by (simp add: notna_def)

lemma dropna_keep_iff:
  assumes "length r = n"
  shows "(real n * 0.5 \<le> real (length (filter notna r))) \<longleftrightarrow>
         \<not> (real n * 0.5 < real (length (filter (\<lambda>v. v = Missing) r)))"
proof -
  have "real (length (filter notna r)) = real n - real (length (filter (\<lambda>v. v = Missing) r))"
    using missing_present[of r] assms by linarith
  then show ?thesis by auto
qed

lemma dropna_ceiling_iff:
  "(real n * 0.5 \<le> real k) \<longleftrightarrow> nat \<lceil>0.5 * real n\<rceil> \<le> k"
proof -
  have "(real n * 0.5 \<le> real k) \<longleftrightarrow> \<lceil>0.5 * real n\<rceil> \<le> int k"
    by (simp add: ceiling_le_iff mult.commute)
  then show ?thesis by linarith
qed

text \<open>
  Claim C5.  The sparse-row step drops exactly the rows whose count of missing
  cells exceeds half of the column count; a row stays if and only if it has at
  least \<open>ceil(0.5 * columnCount)\<close> present values; a row with exactly half
  of its cells missing stays.
\<close>

theorem sparse_row_removal:
  assumes "wf_table df"
  shows "rows (drop_sparse df) =
           filter (\<lambda>r. \<not> (real (length (columns df)) * 0.5 < real (length (filter (\<lambda>v. v = Missing) r))))
                  (rows df)
       \<and> rows (drop_sparse df) =
           filter (\<lambda>r. nat \<lceil>0.5 * real (length (columns df))\<rceil> \<le> length (filter notna r)) (rows df)
       \<and> (\<forall>r \<in> set (rows df). 2 * length (filter (\<lambda>v. v = Missing) r) = length (columns df)
             \<longrightarrow> r \<in> set (rows (drop_sparse df)))"
proof -
  have len: "\<And>r. r \<in> set (rows df) \<Longrightarrow> length r = length (columns df)"
    using assms by (simp add: wf_table_def)
  have raw: "rows (drop_sparse df) =
      filter (\<lambda>r. real (length (columns df)) * 0.5 \<le> real (length (filter notna r))) (rows df)"
    by (simp add: drop_sparse_def dropna_def)
  have a: "rows (drop_sparse df) =
           filter (\<lambda>r. \<not> (real (length (columns df)) * 0.5 < real (length (filter (\<lambda>v. v = Missing) r))))
                  (rows df)"
  proof -
    have "filter (\<lambda>r. real (length (columns df)) * 0.5 \<le> real (length (filter notna r))) (rows df) =
          filter (\<lambda>r. \<not> (real (length (columns df)) * 0.5 < real (length (filter (\<lambda>v. v = Missing) r))))
                 (rows df)"
      by (rule filter_cong[OF refl]) (use len dropna_keep_iff in blast)
    then show ?thesis
      unfolding raw .
  qed
  have b: "rows (drop_sparse df) =
           filter (\<lambda>r. nat \<lceil>0.5 * real (length (columns df))\<rceil> \<le> length (filter notna r)) (rows df)"
    unfolding raw by (simp only: dropna_ceiling_iff)
  have c: "\<forall>r \<in> set (rows df). 2 * length (filter (\<lambda>v. v = Missing) r) = length (columns df)
             \<longrightarrow> r \<in> set (rows (drop_sparse df))"
  proof (intro ballI impI)
    fix r assume r: "r \<in> set (rows df)" and h: "2 * length (filter (\<lambda>v. v = Missing) r) = length (columns df)"
    have "real (length (columns df)) = 2 * real (length (filter (\<lambda>v. v = Missing) r))"
      using h by (metis of_nat_mult of_nat_numeral)
    then show "r \<in> set (rows (drop_sparse df))"
      using r by (simp add: a)
  qed
  show ?thesis using a b c by blast
qed

theorem sparse_row_removal_witness:
  "wf_table half_missing \<and>
   rows (drop_sparse half_missing) =
     [[Missing, Num 1, Missing, Num 2], [Stamp (2020, 1, 1), Num 1, Num 4, Num 2]]"
proof -
  have wf: "wf_table half_missing"
    by (simp add: wf_table_def half_missing_def)
  show ?thesis
    using wf sparse_row_removal[OF wf]
    by (simp add: half_missing_def)
qed

section \<open>Evaluation of the example frames\<close>

lemmas parse_defs =
  decimal_def unsigned_decimal_def nat_of_digits_def digit_of_def strptime_def month_field_def
  day_field_def year_field_def days_in_month_def leap_year_def

lemmas stage_defs =
  parsed_def replace_marker_def replace_cell_def convert_columns_def set_column_def column_def
  convert_date_def drop_sparse_def dropna_def notna_def numerical_cols_def fill_median_def
  fillna_def fill_cell_def median_def remove_outliers_def trim_column_def in_bounds_def
  lower_bound_def upper_bound_def quantile_def nan_minus_def nan_plus_def nan_scale_def
  cell_ge_def cell_le_def fit_transform_def standardize_def scale_cell_def scale_of_def
  variance_def mean_def drop_duplicates_def

lemma raw_frame_parsed:
  "parsed decimal raw_frame = Inr \<lparr>columns = [''Date'', ''X'', ''Y''],
     rows = [[Stamp (2020, 1, 1), Num 1, Num 5],
             [Stamp (2020, 1, 1), Num 1, Num 5],
             [Stamp (2020, 1, 2), Num 3, Num 5],
             [Missing, Missing, Missing],
             [Stamp (2020, 1, 3), Num 3, Missing],
             [Stamp (2020, 1, 4), Num 2, Num 100]]\<rparr>"
  by (simp add: raw_frame_def stage_defs parse_defs)

lemma raw_frame_run: "preprocess_data decimal raw_frame = Inr clean_frame"
  unfolding preprocess_data_def raw_frame_parsed
  by (simp add: clean_frame_def stage_defs Let_def)

lemma wf_raw_frame: "wf_table raw_frame"
  by (simp add: wf_table_def raw_frame_def)

lemma five_quantiles:
  "quantile [Num 1, Num 2, Num 3, Num 4, Num 100] 0.25 = Some 2"
  "quantile [Num 1, Num 2, Num 3, Num 4, Num 100] 0.75 = Some 4"
  "lower_bound [Num 1, Num 2, Num 3, Num 4, Num 100] = Some (- 1)"
  "upper_bound [Num 1, Num 2, Num 3, Num 4, Num 100] = Some 7"
  by (simp_all add: quantile_def lower_bound_def upper_bound_def nan_minus_def nan_plus_def nan_scale_def)

lemma five_frame_trim:
  "rows (remove_outliers [''X''] five_frame) = [[Num 1], [Num 2], [Num 3], [Num 4]]"
  by (simp add: five_frame_def stage_defs)

lemma pair_frame_trim:
  "rows (remove_outliers [''X'', ''Y''] pair_frame) =
     [[Num 1, Num 1], [Num 2, Num 2], [Num 3, Num 3], [Num 4, Num 4]]"
  by (simp add: pair_frame_def stage_defs)

lemma pair_frame_snapshot: "in_bounds (column pair_frame ''Y'') (Num 9)"
  by (simp add: pair_frame_def stage_defs)

section \<open>Duplicates\<close>

lemma keep_first_disjoint: "x \<in> set (keep_first seen rs) \<Longrightarrow> x \<notin> set seen"
proof (induction rs arbitrary: seen)
  case Nil
  then show ?case by simp
next
  case (Cons r rs)
  show ?case
  proof (cases "r \<in> set seen")
    case True
    then show ?thesis using Cons by simp
  next
    case False
    then have "x = r \<or> x \<in> set (keep_first (r # seen) rs)"
      using Cons.prems by simp
    then show ?thesis
    proof
      assume "x = r" then show ?thesis using False by simp
    next
      assume "x \<in> set (keep_first (r # seen) rs)"
      then have "x \<notin> set (r # seen)" by (rule Cons.IH)
      then show ?thesis by simp
    qed
  qed
qed


lemma distinct_keep_first: "distinct (keep_first seen rs)"
proof (induction rs arbitrary: seen)
  case Nil
  then show ?case by simp
next
  case (Cons r rs)
  have "r \<notin> set (keep_first (r # seen) rs)"
    using keep_first_disjoint[of r "r # seen" rs] by auto
  then show ?case
    using Cons.IH by simp
qed

lemma index_filter_Cons:
  "map (\<lambda>i. (r # rs) ! i) (filter P [0..<Suc (length rs)]) =
     (if P 0 then [r] else []) @ map (\<lambda>i. rs ! i) (filter (\<lambda>i. P (Suc i)) [0..<length rs])"
proof -
  have "[0..<Suc (length rs)] = 0 # map Suc [0..<length rs]"
    by (simp add: upt_conv_Cons map_Suc_upt del: upt_Suc)
  then show ?thesis
    by (simp add: filter_map o_def del: upt_Suc)
qed

lemma keep_first_index:
  "keep_first seen rs =
     map (\<lambda>i. rs ! i) (filter (\<lambda>i. rs ! i \<notin> set seen \<union> set (take i rs)) [0..<length rs])"
proof (induction rs arbitrary: seen)
  case Nil
  then show ?case by simp
next
  case (Cons r rs)
  let ?P = "\<lambda>i. (r # rs) ! i \<notin> set seen \<union> set (take i (r # rs))"
  have split: "map (\<lambda>i. (r # rs) ! i) (filter ?P [0..<length (r # rs)]) =
      (if ?P 0 then [r] else []) @ map (\<lambda>i. rs ! i) (filter (\<lambda>i. ?P (Suc i)) [0..<length rs])"
    using index_filter_Cons[of r rs ?P] by simp
  have P0: "?P 0 \<longleftrightarrow> r \<notin> set seen"
    by simp
  show ?case
  proof (cases "r \<in> set seen")
    case True
    then have eq: "(\<lambda>i. ?P (Suc i)) = (\<lambda>i. rs ! i \<notin> set seen \<union> set (take i rs))"
      by auto
    have "keep_first seen (r # rs) = keep_first seen rs"
      using True by simp
    also have "\<dots> = map (\<lambda>i. rs ! i) (filter (\<lambda>i. ?P (Suc i)) [0..<length rs])"
      unfolding eq by (rule Cons.IH)
    also have "\<dots> = map (\<lambda>i. (r # rs) ! i) (filter ?P [0..<length (r # rs)])"
      unfolding split using True P0 by simp
    finally show ?thesis .
  next
    case False
    have eq: "(\<lambda>i. ?P (Suc i)) = (\<lambda>i. rs ! i \<notin> set (r # seen) \<union> set (take i rs))"
      by auto
    have "keep_first seen (r # rs) = r # keep_first (r # seen) rs"
      using False by simp
    also have "\<dots> = r # map (\<lambda>i. rs ! i) (filter (\<lambda>i. ?P (Suc i)) [0..<length rs])"
      unfolding eq using Cons.IH[of "r # seen"] by simp
    also have "\<dots> = map (\<lambda>i. (r # rs) ! i) (filter ?P [0..<length (r # rs)])"
      unfolding split using False P0 by simp
    finally show ?thesis .
  qed
qed

lemma not_in_take_iff: "i \<le> length rs \<Longrightarrow> (x \<notin> set (take i rs)) \<longleftrightarrow> (\<forall>j<i. rs ! j \<noteq> x)"
  by (auto simp: in_set_conv_nth)


lemma subseq_keep_first: "subseq (keep_first seen rs) rs"
  by (induction rs arbitrary: seen) auto

section \<open>Shape of the frame through the steps\<close>

lemma columns_set_column [simp]: "columns (set_column d c vs) = columns d"
  by (simp add: set_column_def)

lemma length_rows_set_column:
  "length vs = length (rows d) \<Longrightarrow> length (rows (set_column d c vs)) = length (rows d)"
  by (simp add: set_column_def)

lemma length_column [simp]: "length (column d c) = length (rows d)"
  by (simp add: column_def)

lemma fold_invariant:
  assumes "\<And>c d. I d \<Longrightarrow> I (step c d)" "I d"
  shows "I (fold step cs d)"
  using assms(2) by (induction cs arbitrary: d) (simp_all add: assms(1))

lemma columns_replace_marker [simp]: "columns (replace_marker df) = columns df"
  by (simp add: replace_marker_def)

lemma length_rows_replace_marker [simp]: "length (rows (replace_marker df)) = length (rows df)"
  by (simp add: replace_marker_def)

lemma convert_columns_shape:
  "columns (convert_columns p df) = columns df \<and>
   length (rows (convert_columns p df)) = length (rows df)"
  unfolding convert_columns_def
  by (rule fold_invariant[where I="\<lambda>d. columns d = columns df \<and> length (rows d) = length (rows df)"])
     (simp_all add: length_rows_set_column)

lemma convert_date_shape:
  "convert_date df = Inr d \<Longrightarrow> columns d = columns df \<and> length (rows d) = length (rows df)"
  by (auto simp: convert_date_def length_rows_set_column split: if_splits)

lemma columns_drop_sparse [simp]: "columns (drop_sparse df) = columns df"
  by (simp add: drop_sparse_def dropna_def)

lemma rows_drop_sparse:
  "rows (drop_sparse df) =
     filter (\<lambda>r. real (length (columns df)) * 0.5 \<le> real (length (filter notna r))) (rows df)"
  by (simp add: drop_sparse_def dropna_def)

lemma subseq_drop_sparse: "subseq (rows (drop_sparse df)) (rows df)"
  unfolding rows_drop_sparse by (rule subseq_filter_left)

lemma fill_median_shape:
  "columns (fill_median cs df) = columns df \<and>
   length (rows (fill_median cs df)) = length (rows df)"
  unfolding fill_median_def
  by (rule fold_invariant[where I="\<lambda>d. columns d = columns df \<and> length (rows d) = length (rows df)"])
     (simp_all add: length_rows_set_column fillna_def)

lemma columns_trim_column [simp]: "columns (trim_column c df) = columns df"
  by (simp add: trim_column_def)

lemma rows_trim_column:
  "rows (trim_column c df) =
     filter (\<lambda>r. in_bounds (column df c) (r ! col_pos (columns df) c)) (rows df)"
  by (simp add: trim_column_def)

lemma remove_outliers_snoc:
  "remove_outliers (cs @ [c]) df = trim_column c (remove_outliers cs df)"
  by (simp add: remove_outliers_def)

lemma columns_remove_outliers [simp]: "columns (remove_outliers cs df) = columns df"
  by (induction cs rule: rev_induct) (simp_all add: remove_outliers_snoc remove_outliers_def)

lemma rows_remove_outliers:
  "rows (remove_outliers cs df) =
     filter (\<lambda>r. \<forall>k<length cs. in_bounds (column (remove_outliers (take k cs) df) (cs ! k))
                                           (r ! col_pos (columns df) (cs ! k)))
            (rows df)"
proof (induction cs rule: rev_induct)
  case Nil
  then show ?case by (simp add: remove_outliers_def)
next
  case (snoc c cs)
  let ?B = "\<lambda>cs' k r. in_bounds (column (remove_outliers (take k cs') df) (cs' ! k))
                                (r ! col_pos (columns df) (cs' ! k))"
  have old: "\<And>k r. k < length cs \<Longrightarrow> ?B (cs @ [c]) k r = ?B cs k r"
    by (simp add: nth_append)
  have last: "\<And>r. ?B (cs @ [c]) (length cs) r =
        in_bounds (column (remove_outliers cs df) c) (r ! col_pos (columns df) c)"
    by simp
  have all: "\<And>r. (\<forall>k<length (cs @ [c]). ?B (cs @ [c]) k r) \<longleftrightarrow>
        (\<forall>k<length cs. ?B cs k r) \<and> in_bounds (column (remove_outliers cs df) c) (r ! col_pos (columns df) c)"
  proof -
    fix r
    have "(\<forall>k<length (cs @ [c]). ?B (cs @ [c]) k r) \<longleftrightarrow>
          (\<forall>k<length cs. ?B (cs @ [c]) k r) \<and> ?B (cs @ [c]) (length cs) r"
      by (auto simp: less_Suc_eq)
    then show "(\<forall>k<length (cs @ [c]). ?B (cs @ [c]) k r) \<longleftrightarrow>
        (\<forall>k<length cs. ?B cs k r) \<and> in_bounds (column (remove_outliers cs df) c) (r ! col_pos (columns df) c)"
      using old[of _ r] last[of r] by auto
  qed
  have "rows (remove_outliers (cs @ [c]) df) =
        filter (\<lambda>r. in_bounds (column (remove_outliers cs df) c) (r ! col_pos (columns df) c))
               (rows (remove_outliers cs df))"
    by (simp add: remove_outliers_snoc rows_trim_column)
  also have "\<dots> = filter (\<lambda>r. (\<forall>k<length cs. ?B cs k r) \<and>
        in_bounds (column (remove_outliers cs df) c) (r ! col_pos (columns df) c)) (rows df)"
    unfolding snoc.IH by (simp add: conj_commute)
  also have "\<dots> = filter (\<lambda>r. \<forall>k<length (cs @ [c]). ?B (cs @ [c]) k r) (rows df)"
    using all by presburger
  finally show ?case .
qed

lemma subseq_remove_outliers: "subseq (rows (remove_outliers cs df)) (rows df)"
  unfolding rows_remove_outliers by (rule subseq_filter_left)

lemma fit_transform_shape:
  assumes "fit_transform cs df = Inr d"
  shows "columns d = columns df \<and> length (rows d) = length (rows df)"
proof -
  have "columns (fold (\<lambda>col d. set_column d col (standardize (column df col))) cs df) = columns df \<and>
        length (rows (fold (\<lambda>col d. set_column d col (standardize (column df col))) cs df)) = length (rows df)"
    by (rule fold_invariant[where I="\<lambda>d. columns d = columns df \<and> length (rows d) = length (rows df)"])
       (simp_all add: length_rows_set_column standardize_def)
  then show ?thesis
    using assms by (auto simp: fit_transform_def split: if_splits)
qed

lemma columns_drop_duplicates [simp]: "columns (drop_duplicates df) = columns df"
  by (simp add: drop_duplicates_def)

lemma subseq_drop_duplicates: "subseq (rows (drop_duplicates df)) (rows df)"
  by (simp add: drop_duplicates_def subseq_keep_first)

lemma subseq_length_le: "subseq xs ys \<Longrightarrow> length xs \<le> length ys"
  by (rule list_emb_length)

lemma parsed_shape:
  assumes "parsed p df = Inr df3"
  shows "columns df3 = columns df \<and> length (rows df3) = length (rows df) \<and>
         ''Date'' \<in> set (columns df) \<and> columns df \<noteq> []"
proof -
  have ne: "columns df \<noteq> []" and cd: "convert_date (convert_columns p (replace_marker df)) = Inr df3"
    using assms by (auto simp: parsed_def split: if_splits)
  have "''Date'' \<in> set (columns (convert_columns p (replace_marker df)))"
    using cd by (auto simp: convert_date_def split: if_splits)
  then show ?thesis
    using ne convert_date_shape[OF cd] convert_columns_shape[of p "replace_marker df"] by simp
qed

lemma preprocess_data_Inr:
  assumes "preprocess_data p df = Inr u"
  obtains df3 df7 where
    "parsed p df = Inr df3"
    "fit_transform (numerical_cols (drop_sparse df3))
       (remove_outliers (numerical_cols (drop_sparse df3))
          (fill_median (numerical_cols (drop_sparse df3)) (drop_sparse df3))) = Inr df7"
    "u = drop_duplicates df7"
  using assms by (auto simp: preprocess_data_def Let_def split: sum.splits)

text \<open>
  Claim C7.  The duplicate step keeps exactly the rows that differ from every
  earlier row, in order (the first occurrence of each distinct row); its result
  has no two equal rows, and so has every frame the pipeline returns.
\<close>

theorem duplicate_removal:
  "rows (drop_duplicates df) =
     map (\<lambda>i. rows df ! i)
         (filter (\<lambda>i. \<forall>j<i. rows df ! j \<noteq> rows df ! i) [0..<length (rows df)])
   \<and> distinct (rows (drop_duplicates df))
   \<and> (\<forall>u. preprocess_data p df = Inr u \<longrightarrow> distinct (rows u))"
proof -
  let ?rs = "rows df"
  have "filter (\<lambda>i. ?rs ! i \<notin> set [] \<union> set (take i ?rs)) [0..<length ?rs] =
        filter (\<lambda>i. \<forall>j<i. ?rs ! j \<noteq> ?rs ! i) [0..<length ?rs]"
    by (rule filter_cong[OF refl]) (simp add: not_in_take_iff)
  then have a: "rows (drop_duplicates df) =
      map (\<lambda>i. ?rs ! i) (filter (\<lambda>i. \<forall>j<i. ?rs ! j \<noteq> ?rs ! i) [0..<length ?rs])"
    using keep_first_index[of "[]" ?rs] by (simp add: drop_duplicates_def)
  have b: "distinct (rows (drop_duplicates df))"
    by (simp add: drop_duplicates_def distinct_keep_first)
  have c: "\<forall>u. preprocess_data p df = Inr u \<longrightarrow> distinct (rows u)"
  proof (intro allI impI)
    fix u assume "preprocess_data p df = Inr u"
    then obtain df7 where "u = drop_duplicates df7"
      by (rule preprocess_data_Inr)
    then show "distinct (rows u)"
      by (simp add: drop_duplicates_def distinct_keep_first)
  qed
  show ?thesis using a b c by blast
qed

theorem duplicate_removal_witness:
  "preprocess_data decimal raw_frame = Inr clean_frame \<and> distinct (rows clean_frame) \<and>
   rows (drop_duplicates \<lparr>columns = [''X''], rows = [[Num 1], [Missing], [Num 1], [Missing], [Num 2]]\<rparr>) =
     [[Num 1], [Missing], [Num 2]]"
proof -
  have "distinct (rows clean_frame)"
    using duplicate_removal[of raw_frame decimal] raw_frame_run by blast
  moreover have "rows (drop_duplicates \<lparr>columns = [''X''], rows = [[Num 1], [Missing], [Num 1], [Missing], [Num 2]]\<rparr>) =
     [[Num 1], [Missing], [Num 2]]"
    by (simp add: drop_duplicates_def)
  ultimately show ?thesis
    using raw_frame_run by simp
qed

text \<open>
  Claim C6.  Steps 1, 2, 3, the median fill and the scaling keep the number of
  rows; the sparse-row step, the outlier step and the duplicate step return a
  subsequence of the rows they receive; hence a returned frame has at most as
  many rows as the input.
\<close>

theorem row_count_never_grows:
  "length (rows (replace_marker df)) = length (rows df)
   \<and> length (rows (convert_columns p df)) = length (rows df)
   \<and> (\<forall>d. convert_date df = Inr d \<longrightarrow> length (rows d) = length (rows df))
   \<and> subseq (rows (drop_sparse df)) (rows df)
   \<and> length (rows (fill_median cs df)) = length (rows df)
   \<and> subseq (rows (remove_outliers cs df)) (rows df)
   \<and> (\<forall>d. fit_transform cs df = Inr d \<longrightarrow> length (rows d) = length (rows df))
   \<and> subseq (rows (drop_duplicates df)) (rows df)
   \<and> (\<forall>u. preprocess_data p df = Inr u \<longrightarrow> length (rows u) \<le> length (rows df))"
proof -
  have total: "\<forall>u. preprocess_data p df = Inr u \<longrightarrow> length (rows u) \<le> length (rows df)"
  proof (intro allI impI)
    fix u assume "preprocess_data p df = Inr u"
    then obtain df3 df7 where
      p3: "parsed p df = Inr df3" and
      f7: "fit_transform (numerical_cols (drop_sparse df3))
             (remove_outliers (numerical_cols (drop_sparse df3))
                (fill_median (numerical_cols (drop_sparse df3)) (drop_sparse df3))) = Inr df7" and
      u: "u = drop_duplicates df7"
      by (rule preprocess_data_Inr)
    let ?cs = "numerical_cols (drop_sparse df3)"
    have "length (rows u) \<le> length (rows df7)"
      unfolding u by (rule subseq_length_le[OF subseq_drop_duplicates])
    also have "\<dots> = length (rows (remove_outliers ?cs (fill_median ?cs (drop_sparse df3))))"
      using fit_transform_shape[OF f7] by simp
    also have "\<dots> \<le> length (rows (fill_median ?cs (drop_sparse df3)))"
      by (rule subseq_length_le[OF subseq_remove_outliers])
    also have "\<dots> = length (rows (drop_sparse df3))"
      using fill_median_shape[of ?cs "drop_sparse df3"] by simp
    also have "\<dots> \<le> length (rows df3)"
      by (rule subseq_length_le[OF subseq_drop_sparse])
    also have "\<dots> = length (rows df)"
      using parsed_shape[OF p3] by simp
    finally show "length (rows u) \<le> length (rows df)" .
  qed
  have c2: "length (rows (convert_columns p df)) = length (rows df)"
    using convert_columns_shape[of p df] by (rule conjunct2)
  have c3: "\<forall>d. convert_date df = Inr d \<longrightarrow> length (rows d) = length (rows df)"
    using convert_date_shape[of df] by blast
  have c5: "length (rows (fill_median cs df)) = length (rows df)"
    using fill_median_shape[of cs df] by (rule conjunct2)
  have c7: "\<forall>d. fit_transform cs df = Inr d \<longrightarrow> length (rows d) = length (rows df)"
    using fit_transform_shape[of cs df] by blast
  show ?thesis
    by (intro conjI length_rows_replace_marker c2 c3 subseq_drop_sparse c5 subseq_remove_outliers
        c7 subseq_drop_duplicates total)
qed

theorem row_count_never_grows_witness:
  "preprocess_data decimal raw_frame = Inr clean_frame \<and>
   length (rows clean_frame) \<le> length (rows raw_frame) \<and>
   length (rows clean_frame) = 3 \<and> length (rows raw_frame) = 6"
proof -
  have "length (rows clean_frame) \<le> length (rows raw_frame)"
    using row_count_never_grows[of raw_frame decimal "[]"] raw_frame_run by blast
  then show ?thesis
    using raw_frame_run by (simp add: clean_frame_def raw_frame_def)
qed

section \<open>Outliers\<close>

lemma in_bounds_iff:
  "in_bounds vs v \<longleftrightarrow>
     (\<exists>x q1 q3. v = Num x \<and> quantile vs 0.25 = Some q1 \<and> quantile vs 0.75 = Some q3 \<and>
        q1 - 1.5 * (q3 - q1) \<le> x \<and> x \<le> q3 + 1.5 * (q3 - q1))"
  by (cases v; cases "quantile vs 0.25"; cases "quantile vs 0.75";
      simp add: in_bounds_def lower_bound_def upper_bound_def nan_minus_def nan_plus_def
        nan_scale_def cell_ge_def cell_le_def)

text \<open>
  Claim C2.  The outlier step handles the numeric columns (every column but
  Date, in the order of the frame's columns) one at a time: each pass computes
  Q1, Q3 and IQR = Q3 - Q1 of its column over the frame as the earlier passes
  left it, and keeps the rows whose value lies in [Q1 - 1.5 IQR, Q3 + 1.5 IQR].
  For the values 1, 2, 3, 4, 100: Q1 = 2, Q3 = 4, the bounds are -1 and 7, and
  the row with 100 is dropped.  The pipeline runs the step on the numeric
  columns of the frame left by the sparse-row step, after the median fill.
\<close>

theorem outlier_trimming:
  "remove_outliers [] df = df
   \<and> remove_outliers (cs @ [c]) df = trim_column c (remove_outliers cs df)
   \<and> rows (trim_column c df) =
       filter (\<lambda>r. in_bounds (column df c) (r ! col_pos (columns df) c)) (rows df)
   \<and> (in_bounds vs v \<longleftrightarrow>
        (\<exists>x q1 q3. v = Num x \<and> quantile vs 0.25 = Some q1 \<and> quantile vs 0.75 = Some q3 \<and>
           q1 - 1.5 * (q3 - q1) \<le> x \<and> x \<le> q3 + 1.5 * (q3 - q1)))
   \<and> rows (remove_outliers cs df) =
       filter (\<lambda>r. \<forall>k<length cs. in_bounds (column (remove_outliers (take k cs) df) (cs ! k))
                                             (r ! col_pos (columns df) (cs ! k)))
              (rows df)
   \<and> quantile [Num 1, Num 2, Num 3, Num 4, Num 100] 0.25 = Some 2
   \<and> quantile [Num 1, Num 2, Num 3, Num 4, Num 100] 0.75 = Some 4
   \<and> lower_bound [Num 1, Num 2, Num 3, Num 4, Num 100] = Some (- 1)
   \<and> upper_bound [Num 1, Num 2, Num 3, Num 4, Num 100] = Some 7
   \<and> rows (remove_outliers [''X''] five_frame) = [[Num 1], [Num 2], [Num 3], [Num 4]]
   \<and> subseq (numerical_cols df) (columns df)
   \<and> set (numerical_cols df) = set (columns df) - {''Date''}
   \<and> (\<forall>u. preprocess_data p df = Inr u \<longrightarrow>
         (\<exists>df3 df7. parsed p df = Inr df3 \<and>
            (let df4 = drop_sparse df3; cs = numerical_cols df4
             in fit_transform cs (remove_outliers cs (fill_median cs df4)) = Inr df7 \<and>
                u = drop_duplicates df7)))"
proof -
  have a: "remove_outliers [] df = df"
    by (simp add: remove_outliers_def)
  have n1: "subseq (numerical_cols df) (columns df)"
    unfolding numerical_cols_def by (rule subseq_filter_left)
  have n2: "set (numerical_cols df) = set (columns df) - {''Date''}"
    by (auto simp: numerical_cols_def)
  have pl: "\<forall>u. preprocess_data p df = Inr u \<longrightarrow>
         (\<exists>df3 df7. parsed p df = Inr df3 \<and>
            (let df4 = drop_sparse df3; cs = numerical_cols df4
             in fit_transform cs (remove_outliers cs (fill_median cs df4)) = Inr df7 \<and>
                u = drop_duplicates df7))"
  proof (intro allI impI)
    fix u assume "preprocess_data p df = Inr u"
    then obtain df3 df7 where
      "parsed p df = Inr df3"
      "fit_transform (numerical_cols (drop_sparse df3))
         (remove_outliers (numerical_cols (drop_sparse df3))
            (fill_median (numerical_cols (drop_sparse df3)) (drop_sparse df3))) = Inr df7"
      "u = drop_duplicates df7"
      by (rule preprocess_data_Inr)
    then show "\<exists>df3 df7. parsed p df = Inr df3 \<and>
            (let df4 = drop_sparse df3; cs = numerical_cols df4
             in fit_transform cs (remove_outliers cs (fill_median cs df4)) = Inr df7 \<and>
                u = drop_duplicates df7)"
      unfolding Let_def by blast
  qed
  show ?thesis
    by (intro conjI a remove_outliers_snoc rows_trim_column in_bounds_iff rows_remove_outliers
        five_quantiles five_frame_trim n1 n2 pl)
qed

theorem outlier_trimming_witness:
  "numerical_cols pair_frame = [''X'', ''Y'']
   \<and> rows (remove_outliers (numerical_cols pair_frame) pair_frame) =
     filter (\<lambda>r. in_bounds (column pair_frame ''X'') (r ! 0) \<and>
                 in_bounds (column (remove_outliers [''X''] pair_frame) ''Y'') (r ! 1))
            (rows pair_frame)
   \<and> rows (remove_outliers (numerical_cols pair_frame) pair_frame) =
       [[Num 1, Num 1], [Num 2, Num 2], [Num 3, Num 3], [Num 4, Num 4]]
   \<and> rows (remove_outliers [''Y'', ''X''] pair_frame) =
       [[Num 1, Num 1], [Num 2, Num 2], [Num 3, Num 3], [Num 4, Num 4], [Num 5, Num 9]]
   \<and> in_bounds (column pair_frame ''Y'') (Num 9)
   \<and> \<not> in_bounds (column (remove_outliers [''X''] pair_frame) ''Y'') (Num 9)"
proof -
  have cols: "columns pair_frame = [''X'', ''Y'']"
    by (simp add: pair_frame_def)
  have nc: "numerical_cols pair_frame = [''X'', ''Y'']"
    by (simp add: numerical_cols_def cols)
  have r0: "remove_outliers [] pair_frame = pair_frame"
    by (simp add: remove_outliers_def)
  have w: "rows (remove_outliers [''X'', ''Y''] pair_frame) =
       filter (\<lambda>r. \<forall>k<length [''X'', ''Y''].
                 in_bounds (column (remove_outliers (take k [''X'', ''Y'']) pair_frame) ([''X'', ''Y''] ! k))
                           (r ! col_pos (columns pair_frame) ([''X'', ''Y''] ! k)))
              (rows pair_frame)"
    by (rule outlier_trimming[of pair_frame "[''X'', ''Y'']", THEN conjunct2, THEN conjunct2,
          THEN conjunct2, THEN conjunct2, THEN conjunct1])
  have a: "rows (remove_outliers (numerical_cols pair_frame) pair_frame) =
     filter (\<lambda>r. in_bounds (column pair_frame ''X'') (r ! 0) \<and>
                 in_bounds (column (remove_outliers [''X''] pair_frame) ''Y'') (r ! 1))
            (rows pair_frame)"
    unfolding nc w by (rule filter_cong[OF refl]) (auto simp: cols r0 less_Suc_eq)
  have t: "rows (remove_outliers (numerical_cols pair_frame) pair_frame) =
       [[Num 1, Num 1], [Num 2, Num 2], [Num 3, Num 3], [Num 4, Num 4]]"
    unfolding nc by (rule pair_frame_trim)
  have rv: "rows (remove_outliers [''Y'', ''X''] pair_frame) =
       [[Num 1, Num 1], [Num 2, Num 2], [Num 3, Num 3], [Num 4, Num 4], [Num 5, Num 9]]"
    by (simp add: pair_frame_def stage_defs)
  have b: "\<not> in_bounds (column (remove_outliers [''X''] pair_frame) ''Y'') (Num 9)"
    by (simp add: pair_frame_def stage_defs)
  show ?thesis
    by (intro conjI nc a t rv b pair_frame_snapshot)
qed

section \<open>Cells and columns after each step\<close>

lemma wf_rows_subset:
  "wf_table df \<Longrightarrow> columns d = columns df \<Longrightarrow> set (rows d) \<subseteq> set (rows df) \<Longrightarrow> wf_table d"
  by (auto simp: wf_table_def)

lemma wf_on_columns:
  "wf_table df \<Longrightarrow> wf_table (df\<lparr>rows := map (on_columns (columns df) cs G) (rows df)\<rparr>)"
  by (auto simp: wf_table_def length_on_columns)

lemma column_subseq:
  "columns d = columns df \<Longrightarrow> subseq (rows d) (rows df) \<Longrightarrow> subseq (column d c) (column df c)"
  by (simp add: column_def subseq_map)

lemma column_on_columns:
  assumes "wf_table df" "c \<in> set (columns df)"
  shows "column (df\<lparr>rows := map (on_columns (columns df) cs G) (rows df)\<rparr>) c =
         (if c \<in> set cs then map (G c) (column df c) else column df c)"
proof -
  have pos: "col_pos (columns df) c < length (columns df)"
    using assms(2) by (rule col_pos_less)
  have nm: "columns df ! col_pos (columns df) c = c"
    using assms(2) by (rule nth_col_pos)
  have "\<And>r. r \<in> set (rows df) \<Longrightarrow>
          on_columns (columns df) cs G r ! col_pos (columns df) c =
          (if c \<in> set cs then G c (r ! col_pos (columns df) c) else r ! col_pos (columns df) c)"
  proof -
    fix r assume "r \<in> set (rows df)"
    then have "length r = length (columns df)"
      using assms(1) by (simp add: wf_table_def)
    then show "on_columns (columns df) cs G r ! col_pos (columns df) c =
          (if c \<in> set cs then G c (r ! col_pos (columns df) c) else r ! col_pos (columns df) c)"
      using pos nm nth_on_columns[of r "columns df" "col_pos (columns df) c" cs G] by simp
  qed
  then show ?thesis
    by (simp add: column_def o_def cong: map_cong)
qed

lemma date_not_numerical: "''Date'' \<notin> set (numerical_cols df)"
  by (simp add: numerical_cols_def)

lemma numerical_cols_iff: "c \<in> set (numerical_cols df) \<longleftrightarrow> c \<in> set (columns df) \<and> c \<noteq> ''Date''"
  by (auto simp: numerical_cols_def)

lemma numerical_cols_cong: "columns d = columns df \<Longrightarrow> numerical_cols d = numerical_cols df"
  by (simp add: numerical_cols_def)

subsection \<open>Steps 1 to 3, row by row\<close>

lemma wf_replace_marker: "wf_table df \<Longrightarrow> wf_table (replace_marker df)"
  by (auto simp: wf_table_def replace_marker_def)

lemma parse_row_eq:
  assumes "distinct names" "length r = length names" "''Date'' \<in> set names"
  shows "(on_columns names names (\<lambda>c. if c \<noteq> ''Date'' then to_numeric p else (\<lambda>v. v)) (map replace_cell r))
           [col_pos names ''Date'' :=
              to_datetime (on_columns names names (\<lambda>c. if c \<noteq> ''Date'' then to_numeric p else (\<lambda>v. v))
                             (map replace_cell r) ! col_pos names ''Date'')] =
         on_columns names names (parse_cell p) r"
    (is "?L = ?R")
proof (rule nth_equalityI)
  show "length ?L = length ?R"
    using assms(2) by (simp add: length_on_columns)
next
  fix j assume "j < length ?L"
  then have j: "j < length names"
    using assms(2) by (simp add: length_on_columns)
  have pos: "col_pos names ''Date'' < length names"
    using assms(3) by (rule col_pos_less)
  have nm: "names ! col_pos names ''Date'' = ''Date''"
    using assms(3) by (rule nth_col_pos)
  have len: "length (map replace_cell r) = length names"
    using assms(2) by simp
  let ?G = "\<lambda>c. if c \<noteq> ''Date'' then to_numeric p else (\<lambda>v. v)"
  have mid: "\<And>k. k < length names \<Longrightarrow>
      on_columns names names ?G (map replace_cell r) ! k = ?G (names ! k) (replace_cell (r ! k))"
    using nth_on_columns[OF len, of _ names ?G] assms(2) by simp
  have right: "?R ! j = parse_cell p (names ! j) (r ! j)"
    using nth_on_columns[OF assms(2) j, of names "parse_cell p"] j by simp
  show "?L ! j = ?R ! j"
  proof (cases "j = col_pos names ''Date''")
    case True
    have "?L ! j = to_datetime (on_columns names names ?G (map replace_cell r) ! col_pos names ''Date'')"
      unfolding True using pos len by (simp add: length_on_columns)
    also have "\<dots> = to_datetime (replace_cell (r ! col_pos names ''Date''))"
      using mid[OF pos] nm by simp
    also have "\<dots> = parse_cell p (names ! j) (r ! j)"
      unfolding True nm by (simp add: parse_cell_def)
    also have "\<dots> = ?R ! j"
      by (rule right[symmetric])
    finally show ?thesis .
  next
    case False
    have ne: "names ! j \<noteq> ''Date''"
    proof
      assume "names ! j = ''Date''"
      then have "col_pos names (names ! j) = col_pos names ''Date''" by (rule arg_cong)
      then show False using False col_pos_nth[OF assms(1) j] by (simp only:)
    qed
    have "?L ! j = on_columns names names ?G (map replace_cell r) ! j"
      using False by (simp only: nth_list_update_neq not_sym)
    also have "\<dots> = to_numeric p (replace_cell (r ! j))"
      using mid[OF j] ne by simp
    also have "\<dots> = parse_cell p (names ! j) (r ! j)"
      using ne by (simp add: parse_cell_def)
    also have "\<dots> = ?R ! j"
      by (rule right[symmetric])
    finally show ?thesis .
  qed
qed

lemma parsed_rows:
  assumes wf: "wf_table df" and p3: "parsed p df = Inr df3"
  shows "df3 = df\<lparr>rows := map (on_columns (columns df) (columns df) (parse_cell p)) (rows df)\<rparr>"
proof -
  let ?names = "columns df"
  let ?G = "\<lambda>c. if c \<noteq> ''Date'' then to_numeric p else (\<lambda>v. v)"
  let ?d1 = "replace_marker df"
  let ?d2 = "convert_columns p ?d1"
  have date: "''Date'' \<in> set ?names"
    using parsed_shape[OF p3] by simp
  have wf1: "wf_table ?d1"
    using wf by (rule wf_replace_marker)
  have d2: "?d2 = ?d1\<lparr>rows := map (on_columns ?names ?names ?G) (rows ?d1)\<rparr>"
    using convert_columns_rows[OF wf1, of p] by simp
  have cd: "convert_date ?d2 = Inr df3"
    using p3 by (auto simp: parsed_def split: if_splits)
  have cols2: "columns ?d2 = ?names"
    using convert_columns_shape[of p ?d1] by simp
  have "df3 = set_column ?d2 ''Date'' (map to_datetime (column ?d2 ''Date''))"
    using cd date cols2 by (simp add: convert_date_def)
  also have "\<dots> = ?d2\<lparr>rows := map (\<lambda>r. r[col_pos ?names ''Date'' := to_datetime (r ! col_pos ?names ''Date'')])
                                   (rows ?d2)\<rparr>"
    using set_column_map[of ?d2 "''Date''" to_datetime] cols2 by simp
  also have "\<dots> = df\<lparr>rows := map (\<lambda>r. (on_columns ?names ?names ?G (map replace_cell r))
        [col_pos ?names ''Date'' :=
           to_datetime (on_columns ?names ?names ?G (map replace_cell r) ! col_pos ?names ''Date'')]) (rows df)\<rparr>"
    unfolding d2 by (simp add: replace_marker_def o_def)
  also have "\<dots> = df\<lparr>rows := map (on_columns ?names ?names (parse_cell p)) (rows df)\<rparr>"
  proof -
    have "\<And>r. r \<in> set (rows df) \<Longrightarrow>
        (on_columns ?names ?names ?G (map replace_cell r))
          [col_pos ?names ''Date'' :=
             to_datetime (on_columns ?names ?names ?G (map replace_cell r) ! col_pos ?names ''Date'')] =
        on_columns ?names ?names (parse_cell p) r"
      using wf date by (intro parse_row_eq) (simp_all add: wf_table_def)
    then show ?thesis
      by (simp cong: map_cong)
  qed
  finally show ?thesis .
qed

lemma wf_parsed: "wf_table df \<Longrightarrow> parsed p df = Inr df3 \<Longrightarrow> wf_table df3"
  using parsed_rows[of df p df3] wf_on_columns[of df "columns df" "parse_cell p"] by simp

lemma wf_drop_sparse: "wf_table df \<Longrightarrow> wf_table (drop_sparse df)"
  by (rule wf_rows_subset[of df]) (auto simp: rows_drop_sparse)

lemma wf_fill_median: "wf_table df \<Longrightarrow> wf_table (fill_median (numerical_cols df) df)"
  using fill_median_rows[of df "numerical_cols df"] numerical_cols_ok[of df]
    wf_on_columns[of df "numerical_cols df"] by simp

lemma wf_remove_outliers: "wf_table df \<Longrightarrow> wf_table (remove_outliers cs df)"
  by (rule wf_rows_subset[of df]) (auto simp: rows_remove_outliers)

lemma to_datetime_shape: "is_date_or_nat (to_datetime v)"
  by (cases v) (simp_all split: option.splits)

lemma to_numeric_shape: "to_numeric p v = Missing \<or> is_number (to_numeric p v)"
  by (cases v) (simp_all split: option.splits)

lemma parsed_cells:
  assumes "wf_table df" "parsed p df = Inr df3" "r \<in> set (rows df3)" "j < length (columns df)"
  shows "(columns df ! j = ''Date'' \<longrightarrow> is_date_or_nat (r ! j)) \<and>
         (columns df ! j \<noteq> ''Date'' \<longrightarrow> r ! j = Missing \<or> is_number (r ! j))"
proof -
  obtain r0 where r0: "r0 \<in> set (rows df)" and r: "r = on_columns (columns df) (columns df) (parse_cell p) r0"
    using assms(3) parsed_rows[OF assms(1,2)] by auto
  have len: "length r0 = length (columns df)"
    using r0 assms(1) by (simp add: wf_table_def)
  have "r ! j = parse_cell p (columns df ! j) (r0 ! j)"
    unfolding r using nth_on_columns[OF len assms(4), of "columns df" "parse_cell p"] assms(4) by simp
  then show ?thesis
    using to_datetime_shape[of "replace_cell (r0 ! j)"] to_numeric_shape[of p "replace_cell (r0 ! j)"]
    by (simp add: parse_cell_def)
qed

lemma column_nth_mem:
  "v \<in> set (column df c) \<Longrightarrow> \<exists>r \<in> set (rows df). v = r ! col_pos (columns df) c"
  by (auto simp: column_def)

lemma present_nonempty_iff: "present vs \<noteq> [] \<longleftrightarrow> (\<exists>x. Num x \<in> set vs)"
  by (induction vs rule: present.induct) auto

lemma median_Some:
  assumes "present vs \<noteq> []"
  shows "\<exists>m. median vs = Some m"
proof (cases "median vs")
  case None
  have "sort (present vs) \<noteq> []"
    using assms length_sort[of "\<lambda>x. x" "present vs"] by (metis length_0_conv)
  with None have False
    by (simp add: median_def Let_def split: if_splits)
  then show ?thesis ..
next
  case (Some m)
  then show ?thesis by blast
qed

lemma median_None: "present vs = [] \<Longrightarrow> median vs = None"
  by (simp add: median_def)

lemma fill_cell_Some: "fill_cell (Some m) = (\<lambda>v. if v = Missing then Num m else v)"
  by (rule ext) (simp add: fill_cell_def)

lemma fill_cell_None: "fill_cell None = (\<lambda>v. v)"
  by (rule ext) (simp add: fill_cell_def)

lemma fill_median_column:
  assumes "wf_table s" "c \<in> set (columns s)"
  shows "column (fill_median (numerical_cols s) s) c =
         (if c \<in> set (numerical_cols s) then map (fill_cell (median (column s c))) (column s c)
          else column s c)"
proof -
  have "fill_median (numerical_cols s) s =
        s\<lparr>rows := map (on_columns (columns s) (numerical_cols s) (\<lambda>c. fill_cell (median (column s c)))) (rows s)\<rparr>"
    using fill_median_rows[OF assms(1), of "numerical_cols s"] numerical_cols_ok[OF assms(1)] by simp
  then show ?thesis
    using column_on_columns[OF assms, of "numerical_cols s" "\<lambda>c. fill_cell (median (column s c))"]
    by simp
qed

lemma raw_parsed_eq: "parsed decimal raw_frame = Inr raw_parsed"
  unfolding raw_parsed_def by (rule raw_frame_parsed)

lemma gap_parsed_eq: "parsed decimal gap_frame = Inr gap_parsed"
  by (simp add: gap_frame_def gap_parsed_def stage_defs parse_defs)

lemma wf_gap_frame: "wf_table gap_frame"
  by (simp add: wf_table_def gap_frame_def)

section \<open>Median fill\<close>

text \<open>
  Claim C3, as the code has it.  After the median fill, a numeric column that
  had at least one value holds no missing cell: each missing cell holds the
  median of the values the column had after the sparse-row step, every other
  cell of it is unchanged.  A numeric column without any value stays entirely
  missing (its median is NaN), and the Date column is not touched.
\<close>

theorem median_fill:
  assumes "wf_table df" "parsed p df = Inr df3"
  shows "let df4 = drop_sparse df3; cs = numerical_cols df4; df5 = fill_median cs df4
         in (\<forall>c \<in> set cs.
               (\<forall>v \<in> set (column df4 c). v = Missing \<or> is_number v)
             \<and> (present (column df4 c) \<noteq> [] \<longrightarrow>
                  (\<exists>m. median (column df4 c) = Some m \<and>
                       column df5 c = map (\<lambda>v. if v = Missing then Num m else v) (column df4 c))
                  \<and> Missing \<notin> set (column df5 c))
             \<and> (present (column df4 c) = [] \<longrightarrow> column df5 c = column df4 c))
          \<and> column df5 ''Date'' = column df4 ''Date''"
proof -
  let ?df4 = "drop_sparse df3"
  let ?cs = "numerical_cols ?df4"
  let ?df5 = "fill_median ?cs ?df4"
  have wf3: "wf_table df3"
    using assms by (rule wf_parsed)
  have wf4: "wf_table ?df4"
    using wf3 by (rule wf_drop_sparse)
  have cols: "columns ?df4 = columns df" "''Date'' \<in> set (columns df)"
    using parsed_shape[OF assms(2)] by simp_all
  have date: "column ?df5 ''Date'' = column ?df4 ''Date''"
    using fill_median_column[OF wf4, of "''Date''"] cols date_not_numerical[of ?df4] by simp
  have each: "\<forall>c \<in> set ?cs.
               (\<forall>v \<in> set (column ?df4 c). v = Missing \<or> is_number v)
             \<and> (present (column ?df4 c) \<noteq> [] \<longrightarrow>
                  (\<exists>m. median (column ?df4 c) = Some m \<and>
                       column ?df5 c = map (\<lambda>v. if v = Missing then Num m else v) (column ?df4 c))
                  \<and> Missing \<notin> set (column ?df5 c))
             \<and> (present (column ?df4 c) = [] \<longrightarrow> column ?df5 c = column ?df4 c)"
  proof
    fix c assume c: "c \<in> set ?cs"
    then have cin: "c \<in> set (columns ?df4)" and cne: "c \<noteq> ''Date''"
      by (simp_all add: numerical_cols_iff)
    have col5: "column ?df5 c = map (fill_cell (median (column ?df4 c))) (column ?df4 c)"
      using fill_median_column[OF wf4 cin] c by simp
    have typed: "\<forall>v \<in> set (column ?df4 c). v = Missing \<or> is_number v"
    proof
      fix v assume "v \<in> set (column ?df4 c)"
      then obtain r where r: "r \<in> set (rows ?df4)" and v: "v = r ! col_pos (columns ?df4) c"
        using column_nth_mem by blast
      have r3: "r \<in> set (rows df3)"
        using r by (simp add: rows_drop_sparse)
      have pos: "col_pos (columns df) c < length (columns df)" and nm: "columns df ! col_pos (columns df) c = c"
        using cin cols(1) col_pos_less nth_col_pos by simp_all
      show "v = Missing \<or> is_number v"
        using parsed_cells[OF assms r3 pos] nm cne v cols(1) by simp
    qed
    have some: "present (column ?df4 c) \<noteq> [] \<longrightarrow>
                  (\<exists>m. median (column ?df4 c) = Some m \<and>
                       column ?df5 c = map (\<lambda>v. if v = Missing then Num m else v) (column ?df4 c))
                  \<and> Missing \<notin> set (column ?df5 c)"
    proof
      assume "present (column ?df4 c) \<noteq> []"
      then obtain m where m: "median (column ?df4 c) = Some m"
        using median_Some by blast
      have eq: "column ?df5 c = map (\<lambda>v. if v = Missing then Num m else v) (column ?df4 c)"
        unfolding col5 m fill_cell_Some ..
      have "Missing \<notin> set (column ?df5 c)"
        unfolding eq by auto
      then show "(\<exists>m. median (column ?df4 c) = Some m \<and>
                       column ?df5 c = map (\<lambda>v. if v = Missing then Num m else v) (column ?df4 c))
                  \<and> Missing \<notin> set (column ?df5 c)"
        using m eq by blast
    qed
    have none: "present (column ?df4 c) = [] \<longrightarrow> column ?df5 c = column ?df4 c"
    proof
      assume "present (column ?df4 c) = []"
      then have "median (column ?df4 c) = None" by (rule median_None)
      then show "column ?df5 c = column ?df4 c"
        unfolding col5 by (simp add: fill_cell_None)
    qed
    show "(\<forall>v \<in> set (column ?df4 c). v = Missing \<or> is_number v)
             \<and> (present (column ?df4 c) \<noteq> [] \<longrightarrow>
                  (\<exists>m. median (column ?df4 c) = Some m \<and>
                       column ?df5 c = map (\<lambda>v. if v = Missing then Num m else v) (column ?df4 c))
                  \<and> Missing \<notin> set (column ?df5 c))
             \<and> (present (column ?df4 c) = [] \<longrightarrow> column ?df5 c = column ?df4 c)"
      using typed some none by (intro conjI)
  qed
  show ?thesis
    unfolding Let_def using each date by (rule conjI)
qed

theorem median_fill_witness:
  "wf_table raw_frame \<and> parsed decimal raw_frame = Inr raw_parsed \<and>
   ''Y'' \<in> set (numerical_cols (drop_sparse raw_parsed)) \<and>
   column (drop_sparse raw_parsed) ''Y'' = [Num 5, Num 5, Num 5, Missing, Num 100] \<and>
   median (column (drop_sparse raw_parsed) ''Y'') = Some 5 \<and>
   column (fill_median (numerical_cols (drop_sparse raw_parsed)) (drop_sparse raw_parsed)) ''Y'' =
     [Num 5, Num 5, Num 5, Num 5, Num 100] \<and>
   Missing \<notin> set (column (fill_median (numerical_cols (drop_sparse raw_parsed)) (drop_sparse raw_parsed)) ''Y'')"
proof -
  let ?df4 = "drop_sparse raw_parsed"
  let ?df5 = "fill_median (numerical_cols ?df4) ?df4"
  have y: "''Y'' \<in> set (numerical_cols ?df4)"
    by (simp add: raw_parsed_def stage_defs)
  have col4: "column ?df4 ''Y'' = [Num 5, Num 5, Num 5, Missing, Num 100]"
    by (simp add: raw_parsed_def stage_defs)
  have ne: "present (column ?df4 ''Y'') \<noteq> []"
    unfolding col4 by simp
  have med: "median (column ?df4 ''Y'') = Some 5"
    unfolding col4 by (simp add: median_def)
  have "\<forall>c \<in> set (numerical_cols ?df4).
               (\<forall>v \<in> set (column ?df4 c). v = Missing \<or> is_number v)
             \<and> (present (column ?df4 c) \<noteq> [] \<longrightarrow>
                  (\<exists>m. median (column ?df4 c) = Some m \<and>
                       column ?df5 c = map (\<lambda>v. if v = Missing then Num m else v) (column ?df4 c))
                  \<and> Missing \<notin> set (column ?df5 c))
             \<and> (present (column ?df4 c) = [] \<longrightarrow> column ?df5 c = column ?df4 c)"
    using median_fill[OF wf_raw_frame raw_parsed_eq] unfolding Let_def by (rule conjunct1)
  then have "(\<exists>m. median (column ?df4 ''Y'') = Some m \<and>
                 column ?df5 ''Y'' = map (\<lambda>v. if v = Missing then Num m else v) (column ?df4 ''Y''))
             \<and> Missing \<notin> set (column ?df5 ''Y'')"
    using y ne by blast
  then have "column ?df5 ''Y'' = [Num 5, Num 5, Num 5, Num 5, Num 100]"
       and "Missing \<notin> set (column ?df5 ''Y'')"
    using med[unfolded col4] unfolding col4 by auto
  then show ?thesis
    by (intro conjI wf_raw_frame raw_parsed_eq y col4 med)
qed

theorem median_fill_counterexample:
  "wf_table gap_frame \<and> parsed decimal gap_frame = Inr gap_parsed \<and>
   ''X'' \<in> set (numerical_cols (drop_sparse gap_parsed)) \<and>
   rows (drop_sparse gap_parsed) = rows gap_parsed \<and>
   column (fill_median (numerical_cols (drop_sparse gap_parsed)) (drop_sparse gap_parsed)) ''X'' =
     [Missing, Missing]"
proof -
  have "''X'' \<in> set (numerical_cols (drop_sparse gap_parsed))"
    by (simp add: gap_parsed_def stage_defs)
  moreover have "rows (drop_sparse gap_parsed) = rows gap_parsed"
    by (simp add: gap_parsed_def stage_defs)
  moreover have "column (fill_median (numerical_cols (drop_sparse gap_parsed)) (drop_sparse gap_parsed)) ''X'' =
     [Missing, Missing]"
    by (simp add: gap_parsed_def stage_defs)
  ultimately show ?thesis
    by (intro conjI wf_gap_frame gap_parsed_eq)
qed

section \<open>Errors\<close>





section \<open>The Date column\<close>

lemma keep_first_map:
  "\<exists>ys. subseq ys xs \<and> keep_first seen (map h xs) = map h ys"
proof (induction xs arbitrary: seen)
  case Nil
  then show ?case by simp
next
  case (Cons x xs)
  show ?case
  proof (cases "h x \<in> set seen")
    case True
    obtain ys where "subseq ys xs" "keep_first seen (map h xs) = map h ys"
      using Cons.IH by blast
    then have "subseq ys (x # xs) \<and> keep_first seen (map h (x # xs)) = map h ys"
      using True by (simp add: list_emb_Cons)
    then show ?thesis by blast
  next
    case False
    obtain ys where "subseq ys xs" "keep_first (h x # seen) (map h xs) = map h ys"
      using Cons.IH by blast
    then have "subseq (x # ys) (x # xs) \<and> keep_first seen (map h (x # xs)) = map h (x # ys)"
      using False by simp
    then show ?thesis by blast
  qed
qed

lemma on_columns_other_cell:
  assumes "distinct names" "length r = length names" "c \<in> set names" "c \<notin> set cs"
  shows "on_columns names cs G r ! col_pos names c = r ! col_pos names c"
  using nth_on_columns[OF assms(2) col_pos_less[OF assms(3)], of cs G] nth_col_pos[OF assms(3)] assms(4)
  by simp

lemma fit_transform_Inr:
  assumes "fit_transform cs df = Inr d"
  shows "rows df \<noteq> []" "cs \<noteq> []"
  using assms by (auto simp: fit_transform_def split: if_splits)

lemma fit_transform_column:
  assumes "wf_table s" "c \<in> set (columns s)" "fit_transform (numerical_cols s) s = Inr d"
  shows "column d c =
         (if c \<in> set (numerical_cols s) then map (scale_cell (present (column s c))) (column s c)
          else column s c)"
proof -
  have "fit_transform (numerical_cols s) s =
        Inr (s\<lparr>rows := map (on_columns (columns s) (numerical_cols s)
                               (\<lambda>c. scale_cell (present (column s c)))) (rows s)\<rparr>)"
    using fit_transform_rows[OF assms(1), of "numerical_cols s"] numerical_cols_ok[OF assms(1)]
      fit_transform_Inr[OF assms(3)] by simp
  then have "d = s\<lparr>rows := map (on_columns (columns s) (numerical_cols s)
                               (\<lambda>c. scale_cell (present (column s c)))) (rows s)\<rparr>"
    using assms(3) by simp
  then show ?thesis
    using column_on_columns[OF assms(1,2), of "numerical_cols s" "\<lambda>c. scale_cell (present (column s c))"]
    by simp
qed

lemma pipeline_rows:
  assumes wf: "wf_table df" and p3: "parsed p df = Inr df3" and run: "preprocess_data p df = Inr u"
  shows "\<exists>rs h. subseq rs (rows df3) \<and> rows u = map h rs \<and>
           (\<forall>r \<in> set rs. h r ! col_pos (columns df) ''Date'' = r ! col_pos (columns df) ''Date'')"
proof -
  let ?df4 = "drop_sparse df3"
  let ?cs = "numerical_cols ?df4"
  let ?df5 = "fill_median ?cs ?df4"
  let ?df6 = "remove_outliers ?cs ?df5"
  let ?names = "columns df"
  obtain df3' df7 where
    p3': "parsed p df = Inr df3'" and
    f7': "fit_transform (numerical_cols (drop_sparse df3'))
             (remove_outliers (numerical_cols (drop_sparse df3'))
                (fill_median (numerical_cols (drop_sparse df3')) (drop_sparse df3'))) = Inr df7" and
    u: "u = drop_duplicates df7"
    using run by (rule preprocess_data_Inr)
  have "df3' = df3" using p3 p3' by simp
  then have f7: "fit_transform ?cs ?df6 = Inr df7"
    using f7' by simp
  have wf3: "wf_table df3" using wf p3 by (rule wf_parsed)
  have wf4: "wf_table ?df4" using wf3 by (rule wf_drop_sparse)
  have wf5: "wf_table ?df5" using wf4 by (rule wf_fill_median)
  have wf6: "wf_table ?df6" using wf5 by (rule wf_remove_outliers)
  have cols3: "columns df3 = ?names" and date: "''Date'' \<in> set ?names"
    using parsed_shape[OF p3] by simp_all
  have cols4: "columns ?df4 = ?names" using cols3 by simp
  have cols5: "columns ?df5 = ?names" using fill_median_shape[of ?cs ?df4] cols4 by simp
  have cols6: "columns ?df6 = ?names" using cols5 by simp
  have cs6: "numerical_cols ?df6 = ?cs"
    using cols6 cols4 by (simp add: numerical_cols_def)
  have csok: "distinct ?cs" "set ?cs \<subseteq> set (columns ?df4)"
    using numerical_cols_ok[OF wf4] by simp_all
  define F where "F = on_columns ?names ?cs (\<lambda>c. fill_cell (median (column ?df4 c)))"
  define S where "S = on_columns ?names ?cs (\<lambda>c. scale_cell (present (column ?df6 c)))"
  obtain P where r6: "rows ?df6 = filter P (rows ?df5)"
    using rows_remove_outliers[of ?cs ?df5] by blast
  have r5: "rows ?df5 = map F (rows ?df4)"
    using fill_median_rows[OF wf4 csok] cols4 by (simp add: F_def)
  have r7: "rows df7 = map S (rows ?df6)"
  proof -
    have "fit_transform ?cs ?df6 =
          Inr (?df6\<lparr>rows := map (on_columns (columns ?df6) ?cs (\<lambda>c. scale_cell (present (column ?df6 c))))
                                (rows ?df6)\<rparr>)"
      using csok cols4 cols6 fit_transform_Inr[OF f7]
      by (intro fit_transform_rows[OF wf6]) simp_all
    then show ?thesis
      using f7 cols6 by (simp add: S_def)
  qed
  let ?zs = "filter (P \<circ> F) (rows ?df4)"
  have "rows df7 = map (S \<circ> F) ?zs"
    unfolding r7 r6 r5 by (simp add: filter_map)
  then have "rows u = keep_first [] (map (S \<circ> F) ?zs)"
    by (simp add: u drop_duplicates_def)
  then obtain rs where rs: "subseq rs ?zs" "rows u = map (S \<circ> F) rs"
    using keep_first_map[of ?zs "[]" "S \<circ> F"] by auto
  have "subseq ?zs (rows df3)"
    using subseq_filter_left[of "P \<circ> F" "rows ?df4"] subseq_drop_sparse[of df3]
    by (rule subseq_order.trans)
  with rs(1) have sub: "subseq rs (rows df3)"
    by (rule subseq_order.trans)
  have keep: "\<forall>r \<in> set rs. (S \<circ> F) r ! col_pos ?names ''Date'' = r ! col_pos ?names ''Date''"
  proof
    fix r assume "r \<in> set rs"
    then have "r \<in> set (rows df3)"
      using sub list_emb_set[of "(=)" rs "rows df3" r] by auto
    then have len: "length r = length ?names"
      using wf3 cols3 by (simp add: wf_table_def)
    have dn: "''Date'' \<notin> set ?cs"
      by (rule date_not_numerical)
    have dist: "distinct ?names"
      using wf by (simp add: wf_table_def)
    have lenF: "length (F r) = length ?names"
      unfolding F_def using len by (rule length_on_columns)
    have "S (F r) ! col_pos ?names ''Date'' = F r ! col_pos ?names ''Date''"
      unfolding S_def using dist lenF date dn by (rule on_columns_other_cell)
    also have "\<dots> = r ! col_pos ?names ''Date''"
      unfolding F_def using dist len date dn by (rule on_columns_other_cell)
    finally show "(S \<circ> F) r ! col_pos ?names ''Date'' = r ! col_pos ?names ''Date''"
      by simp
  qed
  show ?thesis
    using sub rs(2) keep by blast
qed

text \<open>
  Claim C10.  The Date column after step 3 is the parsed dates; the median
  fill and the scaling leave it as it is, the outlier step keeps or drops whole
  rows; every row of the returned frame is the image of a row of the frame
  after step 3 with the same Date cell, in the same order.
\<close>

theorem date_column_frame:
  assumes "wf_table df" "parsed p df = Inr df3"
  shows "column df3 ''Date'' = map (\<lambda>v. to_datetime (replace_cell v)) (column df ''Date'')
    \<and> (let df4 = drop_sparse df3; cs = numerical_cols df4; df5 = fill_median cs df4;
            df6 = remove_outliers cs df5
        in column df5 ''Date'' = column df4 ''Date''
         \<and> subseq (rows df6) (rows df5)
         \<and> (\<forall>df7. fit_transform cs df6 = Inr df7 \<longrightarrow> column df7 ''Date'' = column df6 ''Date''))
    \<and> (\<forall>u. preprocess_data p df = Inr u \<longrightarrow>
          (\<exists>rs h. subseq rs (rows df3) \<and> rows u = map h rs \<and>
             (\<forall>r \<in> set rs. h r ! col_pos (columns df) ''Date'' = r ! col_pos (columns df) ''Date''))
          \<and> subseq (column u ''Date'') (column df3 ''Date''))"
proof -
  let ?df4 = "drop_sparse df3"
  let ?cs = "numerical_cols ?df4"
  let ?df5 = "fill_median ?cs ?df4"
  let ?df6 = "remove_outliers ?cs ?df5"
  let ?names = "columns df"
  have wf3: "wf_table df3" using assms by (rule wf_parsed)
  have wf4: "wf_table ?df4" using wf3 by (rule wf_drop_sparse)
  have wf5: "wf_table ?df5" using wf4 by (rule wf_fill_median)
  have wf6: "wf_table ?df6" using wf5 by (rule wf_remove_outliers)
  have cols3: "columns df3 = ?names" and date: "''Date'' \<in> set ?names"
    using parsed_shape[OF assms(2)] by simp_all
  have cols4: "columns ?df4 = ?names" using cols3 by simp
  have cols5: "columns ?df5 = ?names" using fill_median_shape[of ?cs ?df4] cols4 by simp
  have cols6: "columns ?df6 = ?names" using cols5 by simp
  have cs6: "numerical_cols ?df6 = ?cs"
    using cols6 cols4 by (simp add: numerical_cols_def)
  have a: "column df3 ''Date'' = map (\<lambda>v. to_datetime (replace_cell v)) (column df ''Date'')"
  proof -
    have "column df3 ''Date'' = map (parse_cell p ''Date'') (column df ''Date'')"
      using parsed_rows[OF assms] column_on_columns[OF assms(1) date, of "columns df" "parse_cell p"] date
      by simp
    then show ?thesis
      by (simp add: parse_cell_def)
  qed
  have b1: "column ?df5 ''Date'' = column ?df4 ''Date''"
    using fill_median_column[OF wf4, of "''Date''"] cols4 date date_not_numerical[of ?df4] by simp
  have b2: "subseq (rows ?df6) (rows ?df5)"
    by (rule subseq_remove_outliers)
  have b3: "\<forall>df7. fit_transform ?cs ?df6 = Inr df7 \<longrightarrow> column df7 ''Date'' = column ?df6 ''Date''"
  proof (intro allI impI)
    fix df7 assume "fit_transform ?cs ?df6 = Inr df7"
    then have "fit_transform (numerical_cols ?df6) ?df6 = Inr df7"
      using cs6 by simp
    then show "column df7 ''Date'' = column ?df6 ''Date''"
      using fit_transform_column[OF wf6, of "''Date''" df7] cols6 date date_not_numerical[of ?df6]
      by simp
  qed
  have c: "\<forall>u. preprocess_data p df = Inr u \<longrightarrow>
          (\<exists>rs h. subseq rs (rows df3) \<and> rows u = map h rs \<and>
             (\<forall>r \<in> set rs. h r ! col_pos ?names ''Date'' = r ! col_pos ?names ''Date''))
          \<and> subseq (column u ''Date'') (column df3 ''Date'')"
  proof (intro allI impI)
    fix u assume run: "preprocess_data p df = Inr u"
    obtain rs h where rs: "subseq rs (rows df3)" "rows u = map h rs"
        "\<forall>r \<in> set rs. h r ! col_pos ?names ''Date'' = r ! col_pos ?names ''Date''"
      using pipeline_rows[OF assms run] by blast
    obtain df7 where u: "u = drop_duplicates df7" and
      f7: "fit_transform ?cs ?df6 = Inr df7"
      using run assms(2) by (auto elim!: preprocess_data_Inr)
    have colsu: "columns u = ?names"
      using u fit_transform_shape[OF f7] cols6 by simp
    have "column u ''Date'' = map (\<lambda>r. h r ! col_pos ?names ''Date'') rs"
      using rs(2) colsu by (simp add: column_def o_def)
    also have "\<dots> = map (\<lambda>r. r ! col_pos ?names ''Date'') rs"
      using rs(3) by (simp cong: map_cong)
    finally have "column u ''Date'' = map (\<lambda>r. r ! col_pos ?names ''Date'') rs" .
    moreover have "subseq (map (\<lambda>r. r ! col_pos ?names ''Date'') rs)
                          (map (\<lambda>r. r ! col_pos ?names ''Date'') (rows df3))"
      using rs(1) by (rule subseq_map)
    ultimately have "subseq (column u ''Date'') (column df3 ''Date'')"
      using cols3 by (simp add: column_def)
    then show "(\<exists>rs h. subseq rs (rows df3) \<and> rows u = map h rs \<and>
             (\<forall>r \<in> set rs. h r ! col_pos ?names ''Date'' = r ! col_pos ?names ''Date''))
          \<and> subseq (column u ''Date'') (column df3 ''Date'')"
      using rs by blast
  qed
  have b: "let df4 = drop_sparse df3; cs = numerical_cols df4; df5 = fill_median cs df4;
            df6 = remove_outliers cs df5
        in column df5 ''Date'' = column df4 ''Date''
         \<and> subseq (rows df6) (rows df5)
         \<and> (\<forall>df7. fit_transform cs df6 = Inr df7 \<longrightarrow> column df7 ''Date'' = column df6 ''Date'')"
    unfolding Let_def by (intro conjI b1 b2 b3)
  show ?thesis
    by (intro conjI a b c)
qed

theorem date_column_frame_witness:
  "wf_table raw_frame \<and> parsed decimal raw_frame = Inr raw_parsed \<and>
   preprocess_data decimal raw_frame = Inr clean_frame \<and>
   column raw_frame ''Date'' =
     [Str ''1/1/2020'', Str ''1/1/2020'', Str ''1/2/2020'', Str ''13/2/2020'', Str ''1/3/2020'',
      Str ''1/4/2020''] \<and>
   column raw_parsed ''Date'' =
     [Stamp (2020, 1, 1), Stamp (2020, 1, 1), Stamp (2020, 1, 2), Missing, Stamp (2020, 1, 3),
      Stamp (2020, 1, 4)] \<and>
   column clean_frame ''Date'' = [Stamp (2020, 1, 1), Stamp (2020, 1, 2), Stamp (2020, 1, 3)] \<and>
   subseq (column clean_frame ''Date'') (column raw_parsed ''Date'')"
proof -
  note t = date_column_frame[OF wf_raw_frame raw_parsed_eq]
  have a: "column raw_frame ''Date'' =
     [Str ''1/1/2020'', Str ''1/1/2020'', Str ''1/2/2020'', Str ''13/2/2020'', Str ''1/3/2020'',
      Str ''1/4/2020'']"
    by (simp add: raw_frame_def column_def)
  have b: "column raw_parsed ''Date'' =
     [Stamp (2020, 1, 1), Stamp (2020, 1, 1), Stamp (2020, 1, 2), Missing, Stamp (2020, 1, 3),
      Stamp (2020, 1, 4)]"
    using t[THEN conjunct1] unfolding a by (simp add: replace_cell_def parse_defs)
  have c: "column clean_frame ''Date'' = [Stamp (2020, 1, 1), Stamp (2020, 1, 2), Stamp (2020, 1, 3)]"
    by (simp add: clean_frame_def column_def)
  have d: "subseq (column clean_frame ''Date'') (column raw_parsed ''Date'')"
    using t[THEN conjunct2, THEN conjunct2] raw_frame_run by blast
  show ?thesis
    by (intro conjI wf_raw_frame raw_parsed_eq raw_frame_run a b c d)
qed

section \<open>Running the pipeline on its own result\<close>


lemma rows_update_id: "rs = rows u \<Longrightarrow> u\<lparr>rows := rs\<rparr> = u"
  by simp
























section \<open>Row lengths in the decoder\<close>













end
